theory Spec2Isabelle
  imports Complex_Main "HOL-Library.AList" "HOL-Library.Multiset"
begin

section \<open>Data model\<close>

text \<open>
  The script \<^verbatim>\<open>bbc_analysis_v3.py\<close> classifies a column of headlines against the
  dictionary \<^verbatim>\<open>patterns\<close> (category label to regular expression) three times: a
  multi-label pass, an exclusive first-match pass and a co-occurrence count, and then
  divides two sums of counts.

  \<^item> The headline column is a \<open>string list\<close> (rows without a headline are dropped
    before the passes, and \<^verbatim>\<open>str\<close> of a text is the text); a row's index label is its
    position.
  \<^item> \<^verbatim>\<open>re.search(pattern, headline)\<close> is library code: a rule carries the predicate
    "this pattern is found in the headline" instead of the pattern's text.
  \<^item> A Python \<^verbatim>\<open>dict\<close> is an association list in insertion order; \<^verbatim>\<open>d[k] = v\<close> is
    \<open>AList.update\<close> (an existing key keeps its position, a new key goes last) and
    reading \<^verbatim>\<open>d[k]\<close> raises \<^verbatim>\<open>KeyError\<close> on a missing key.
  \<^item> Python integers are unbounded: counts are \<open>int\<close>.
\<close>

datatype py_error = KeyError | ZeroDivisionError

type_synonym matcher = "string \<Rightarrow> bool"

type_synonym rules = "(string \<times> matcher) list"

record entry =
  count :: int
  headlines :: "string list"

type_synonym results = "(string \<times> entry) list"

definition on_ok :: "py_error + 'a \<Rightarrow> ('a \<Rightarrow> py_error + 'b) \<Rightarrow> py_error + 'b" where
  "on_ok r f = (case r of Inl e \<Rightarrow> Inl e | Inr x \<Rightarrow> f x)"

definition dict_get :: "('k \<times> 'v) list \<Rightarrow> 'k \<Rightarrow> py_error + 'v" where
  "dict_get d k = (case map_of d k of None \<Rightarrow> Inl KeyError | Some v \<Rightarrow> Inr v)"

text \<open>The eighteen labels of \<^verbatim>\<open>patterns\<close>, in the order of the dictionary literal.\<close>

definition pattern_labels :: "string list" where
  "pattern_labels =
    [''SEND/Special Schools'', ''Deaf/Hearing'', ''Blind/Vision'', ''Chronic Illness/Pain'',
     ''Physical & Mobility'', ''Learning Disabilities'', ''Mental Health & Neuro'',
     ''Autism/Neurodiversity'', ''Benefits, Care & Systemic Issues'',
     ''Accessibility & Inclusion'', ''Family & Carer Perspective'', ''Sports, Arts & Culture'',
     ''Charity, People & Community'', ''Animals & Well-being'', ''Infrastructure & Transport'',
     ''Work, Employment & Enterprise'', ''Personal Stories & Empowerment'',
     ''General 'Disability' Keyword'']"

section \<open>Multi-category analysis\<close>

text \<open>\<^verbatim>\<open>df[headline_col].str.contains(pattern, regex=True, na=False)\<close>: one boolean per row.\<close>

definition str_contains :: "string list \<Rightarrow> matcher \<Rightarrow> bool list" where
  "str_contains df pattern = map pattern df"

text \<open>\<^verbatim>\<open>df[matches].index\<close>: the labels of the rows whose flag is set, in row order.\<close>

definition index_where :: "bool list \<Rightarrow> nat list" where
  "index_where matches = [i \<leftarrow> [0..<length matches]. matches ! i]"

text \<open>\<^verbatim>\<open>df.loc[labels, headline_col].tolist()\<close>: a label that is not in the index raises.\<close>

fun loc :: "string list \<Rightarrow> nat list \<Rightarrow> py_error + string list" where
  "loc df [] = Inr []"
| "loc df (i # labels) =
     (if i < length df
      then on_ok (loc df labels) (\<lambda>hs. Inr (df ! i # hs))
      else Inl KeyError)"

text \<open>
  The loop over \<^verbatim>\<open>patterns.items()\<close>; the state is the result dictionary and the set
  \<^verbatim>\<open>all_matched_indices\<close>.
\<close>

fun multi_loop ::
  "rules \<Rightarrow> string list \<Rightarrow> results \<times> nat set \<Rightarrow> py_error + results \<times> nat set" where
  "multi_loop [] df st = Inr st"
| "multi_loop ((label, pattern) # rest) df (res, all_matched_indices) =
     (let matches = str_contains df pattern;
          matched_indices = index_where matches
      in on_ok (loc df matched_indices) (\<lambda>matched_headlines.
           multi_loop rest df
             (AList.update label
                \<lparr>count = int (length matched_headlines), headlines = matched_headlines\<rparr> res,
              all_matched_indices \<union> set matched_indices)))"

text \<open>
  \<^verbatim>\<open>list(unmatched_indices)\<close> walks a Python set, whose iteration order is a detail of
  the hash table. The order is the parameter \<open>set_to_list\<close>; \<open>enumerates\<close> is all that
  Python promises of it: every element, once.
\<close>

definition enumerates :: "(nat set \<Rightarrow> nat list) \<Rightarrow> bool" where
  "enumerates set_to_list \<longleftrightarrow>
     (\<forall>S. finite S \<longrightarrow> set (set_to_list S) = S \<and> distinct (set_to_list S))"

definition multi_category_results ::
  "(nat set \<Rightarrow> nat list) \<Rightarrow> rules \<Rightarrow> string list \<Rightarrow> py_error + results" where
  "multi_category_results set_to_list patterns df =
     on_ok (multi_loop patterns df ([], {})) (\<lambda>(res, all_matched_indices).
       let unmatched_indices = set [0..<length df] - all_matched_indices
       in on_ok (loc df (set_to_list unmatched_indices)) (\<lambda>unmatched_headlines.
            Inr (AList.update ''Uncategorized''
                   \<lparr>count = int (length unmatched_headlines), headlines = unmatched_headlines\<rparr>
                   res)))"

text \<open>\<^verbatim>\<open>sum(res['count'] for label, res in ... if label != "Uncategorized")\<close>\<close>

definition multi_sum :: "results \<Rightarrow> int" where
  "multi_sum res = sum_list [count e. (label, e) \<leftarrow> res, label \<noteq> ''Uncategorized'']"

section \<open>Exclusive category analysis\<close>

text \<open>
  \<^verbatim>\<open>{label: {"count": 0, "headlines": []} for label in patterns.keys()}\<close>, then the
  assignment of the \<^verbatim>\<open>"Uncategorized"\<close> entry.
\<close>

definition empty_entry :: entry where
  "empty_entry = \<lparr>count = 0, headlines = []\<rparr>"

definition exclusive_init :: "rules \<Rightarrow> results" where
  "exclusive_init patterns =
     AList.update ''Uncategorized'' empty_entry
       (foldl (\<lambda>d label. AList.update label empty_entry d) [] (map fst patterns))"

text \<open>
  \<^verbatim>\<open>d[label]["count"] += 1; d[label]["headlines"].append(headline)\<close>: the entry is
  changed in place, and every entry has its own list.
\<close>

definition add_headline :: "string \<Rightarrow> string \<Rightarrow> results \<Rightarrow> py_error + results" where
  "add_headline label headline d =
     on_ok (dict_get d label) (\<lambda>e.
       Inr (AList.update label
              \<lparr>count = count e + 1, headlines = headlines e @ [headline]\<rparr> d))"

text \<open>
  The inner loop over \<^verbatim>\<open>patterns.items()\<close> with its \<^verbatim>\<open>break\<close>: the rules after the
  first match are not looked at. The flag returned is \<^verbatim>\<open>matched\<close>.
\<close>

fun first_match_wins :: "rules \<Rightarrow> string \<Rightarrow> results \<Rightarrow> py_error + results \<times> bool" where
  "first_match_wins [] headline d = Inr (d, False)"
| "first_match_wins ((label, pattern) # rest) headline d =
     (if pattern headline
      then on_ok (add_headline label headline d) (\<lambda>d'. Inr (d', True))
      else first_match_wins rest headline d)"

fun exclusive_loop :: "rules \<Rightarrow> string list \<Rightarrow> results \<Rightarrow> py_error + results" where
  "exclusive_loop patterns [] d = Inr d"
| "exclusive_loop patterns (headline # df) d =
     on_ok (first_match_wins patterns headline d) (\<lambda>(d', matched).
       on_ok (if \<not> matched then add_headline ''Uncategorized'' headline d' else Inr d')
         (exclusive_loop patterns df))"

definition exclusive_category_results :: "rules \<Rightarrow> string list \<Rightarrow> py_error + results" where
  "exclusive_category_results patterns df = exclusive_loop patterns df (exclusive_init patterns)"

text \<open>\<^verbatim>\<open>sum(res['count'] for res in exclusive_category_results.values())\<close>\<close>

definition exclusive_sum :: "results \<Rightarrow> int" where
  "exclusive_sum res = sum_list (map (\<lambda>(label, e). count e) res)"

text \<open>The same sum without the sentinel, as \<open>multi_sum\<close> takes it.\<close>

definition exclusive_sum_categorized :: "results \<Rightarrow> int" where
  "exclusive_sum_categorized res =
     sum_list [count e. (label, e) \<leftarrow> res, label \<noteq> ''Uncategorized'']"

section \<open>Co-occurrence matrix\<close>

definition categories_for_heatmap :: "rules \<Rightarrow> string list" where
  "categories_for_heatmap patterns =
     [cat \<leftarrow> map fst patterns. cat \<notin> set [''Uncategorized'', ''General 'Disability' Keyword'']]"

text \<open>
  The square \<^verbatim>\<open>DataFrame\<close>: a cell for every pair of labels, none elsewhere. Its cells
  are 64-bit integers; a cell is at most twice the number of headlines, so they are
  \<open>int\<close> here.
\<close>

type_synonym frame = "string \<times> string \<Rightarrow> int option"

definition zero_frame :: "string list \<Rightarrow> frame" where
  "zero_frame labels = (\<lambda>(r, c). if r \<in> set labels \<and> c \<in> set labels then Some 0 else None)"

text \<open>\<^verbatim>\<open>m.at[r, c] += 1\<close>: the read raises on a label pair that is not in the frame.\<close>

definition at_incr :: "string \<Rightarrow> string \<Rightarrow> frame \<Rightarrow> py_error + frame" where
  "at_incr r c m = (case m (r, c) of None \<Rightarrow> Inl KeyError | Some v \<Rightarrow> Inr (m((r, c) \<mapsto> v + 1)))"

text \<open>The loop that fills \<^verbatim>\<open>matched_cats\<close>; \<^verbatim>\<open>patterns[label]\<close> is a dictionary read.\<close>

fun matched_cats :: "rules \<Rightarrow> string list \<Rightarrow> string \<Rightarrow> py_error + string list" where
  "matched_cats patterns [] headline = Inr []"
| "matched_cats patterns (label # labels) headline =
     on_ok (dict_get patterns label) (\<lambda>pattern.
       on_ok (matched_cats patterns labels headline) (\<lambda>cats.
         Inr (if pattern headline then label # cats else cats)))"

text \<open>\<^verbatim>\<open>for cat2 in matched_cats[i:]\<close>\<close>

fun pair_loop :: "string \<Rightarrow> string list \<Rightarrow> frame \<Rightarrow> py_error + frame" where
  "pair_loop cat1 [] m = Inr m"
| "pair_loop cat1 (cat2 # rest) m =
     on_ok (at_incr cat1 cat2 m) (\<lambda>m1.
       on_ok (if cat1 \<noteq> cat2 then at_incr cat2 cat1 m1 else Inr m1)
         (pair_loop cat1 rest))"

text \<open>\<^verbatim>\<open>for i, cat1 in enumerate(matched_cats)\<close>: the slice \<^verbatim>\<open>[i:]\<close> starts at \<^verbatim>\<open>cat1\<close>.\<close>

fun update_matrix :: "string list \<Rightarrow> frame \<Rightarrow> py_error + frame" where
  "update_matrix [] m = Inr m"
| "update_matrix (cat1 # rest) m =
     on_ok (pair_loop cat1 (cat1 # rest) m) (update_matrix rest)"

fun co_occurrence_loop :: "rules \<Rightarrow> string list \<Rightarrow> string list \<Rightarrow> frame \<Rightarrow> py_error + frame" where
  "co_occurrence_loop patterns labels [] m = Inr m"
| "co_occurrence_loop patterns labels (headline # df) m =
     on_ok (matched_cats patterns labels headline) (\<lambda>cats.
       on_ok (update_matrix cats m) (co_occurrence_loop patterns labels df))"

definition co_occurrence_matrix :: "rules \<Rightarrow> string list \<Rightarrow> py_error + frame" where
  "co_occurrence_matrix patterns df =
     (let labels = categories_for_heatmap patterns
      in co_occurrence_loop patterns labels df (zero_frame labels))"

section \<open>Visibility analysis\<close>

definition visible_categories :: "string list" where
  "visible_categories =
     [''Deaf/Hearing'', ''Blind/Vision'', ''Physical & Mobility'', ''Learning Disabilities'']"

definition invisible_categories :: "string list" where
  "invisible_categories =
     [''Chronic Illness/Pain'', ''Mental Health & Neuro'', ''Autism/Neurodiversity'']"

text \<open>\<^verbatim>\<open>sum(results[cat]["count"] for cat in cats)\<close>\<close>

fun sum_counts :: "results \<Rightarrow> string list \<Rightarrow> py_error + int" where
  "sum_counts res [] = Inr 0"
| "sum_counts res (cat # cats) =
     on_ok (dict_get res cat) (\<lambda>e.
       on_ok (sum_counts res cats) (\<lambda>s. Inr (count e + s)))"

text \<open>
  Python's \<^verbatim>\<open>a / b\<close> on integers: \<^verbatim>\<open>ZeroDivisionError\<close> when \<open>b\<close> is zero, otherwise the
  quotient (here the exact rational; Python rounds it to a double).
\<close>

definition truediv :: "int \<Rightarrow> int \<Rightarrow> py_error + rat" where
  "truediv a b = (if b = 0 then Inl ZeroDivisionError else Inr (of_int a / of_int b))"

record visibility =
  visible_exclusive :: int
  invisible_exclusive :: int
  visible_multi :: int
  invisible_multi :: int
  ratio_exclusive :: rat
  ratio_multi :: rat

text \<open>
  The four sums, then the divisions in the order of the \<^verbatim>\<open>print\<close> calls: the two
  percentages of \<^verbatim>\<open>len(df)\<close>, the exclusive ratio, the multi-category ratio.
\<close>

definition visibility_analysis :: "results \<Rightarrow> results \<Rightarrow> int \<Rightarrow> py_error + visibility" where
  "visibility_analysis exclusive multi len_df =
     on_ok (sum_counts exclusive visible_categories) (\<lambda>ve.
     on_ok (sum_counts exclusive invisible_categories) (\<lambda>ie.
     on_ok (sum_counts multi visible_categories) (\<lambda>vm.
     on_ok (sum_counts multi invisible_categories) (\<lambda>im.
     on_ok (truediv ve len_df) (\<lambda>_.
     on_ok (truediv ie len_df) (\<lambda>_.
     on_ok (truediv ve ie) (\<lambda>re.
     on_ok (truediv vm im) (\<lambda>rm.
       Inr \<lparr>visible_exclusive = ve, invisible_exclusive = ie,
            visible_multi = vm, invisible_multi = im,
            ratio_exclusive = re, ratio_multi = rm\<rparr>))))))))"

text \<open>The script from the headline column to the visibility section.\<close>

definition visibility_of ::
  "(nat set \<Rightarrow> nat list) \<Rightarrow> rules \<Rightarrow> string list \<Rightarrow> py_error + visibility" where
  "visibility_of set_to_list patterns df =
     on_ok (multi_category_results set_to_list patterns df) (\<lambda>multi.
     on_ok (exclusive_category_results patterns df) (\<lambda>exclusive.
       visibility_analysis exclusive multi (int (length df))))"

section \<open>The three passes of one run\<close>

record analysis =
  multi_results :: results
  exclusive_results :: results
  co_occurrence :: frame

text \<open>The passes in the order of the script; the visibility section comes after them.\<close>

definition run_analysis ::
  "(nat set \<Rightarrow> nat list) \<Rightarrow> rules \<Rightarrow> string list \<Rightarrow> py_error + analysis" where
  "run_analysis set_to_list patterns df =
     on_ok (multi_category_results set_to_list patterns df) (\<lambda>multi.
     on_ok (exclusive_category_results patterns df) (\<lambda>exclusive.
     on_ok (co_occurrence_matrix patterns df) (\<lambda>matrix.
       Inr \<lparr>multi_results = multi, exclusive_results = exclusive,
            co_occurrence = matrix\<rparr>)))"

section \<open>Notions used to state the properties\<close>

text \<open>The counts of a result dictionary, label by label.\<close>

definition counts_of :: "results \<Rightarrow> (string \<times> int) list" where
  "counts_of res = map (\<lambda>(label, e). (label, count e)) res"

text \<open>
  The category a headline is assigned to in the words of the specification: the label
  of the first rule, in declaration order, whose predicate matches, and the sentinel
  when no rule matches.
\<close>

definition spec_assigned_category :: "rules \<Rightarrow> string \<Rightarrow> string" where
  "spec_assigned_category patterns headline =
     (case find (\<lambda>(label, pattern). pattern headline) patterns of
        Some (label, pattern) \<Rightarrow> label
      | None \<Rightarrow> ''Uncategorized'')"

text \<open>The entry that holds a list of headlines and its length.\<close>

definition entry_of :: "string list \<Rightarrow> entry" where
  "entry_of hs = \<lparr>count = int (length hs), headlines = hs\<rparr>"

text \<open>The number of rules whose predicate matches a headline.\<close>

definition match_count :: "rules \<Rightarrow> string \<Rightarrow> nat" where
  "match_count patterns headline = length [rule \<leftarrow> patterns. snd rule headline]"

text \<open>
  The sum of the counts of a list of categories in the exclusive results and in the
  multi-category results of a run, as the visibility section takes them.
\<close>

definition exclusive_total_over :: "string list \<Rightarrow> rules \<Rightarrow> string list \<Rightarrow> py_error + int" where
  "exclusive_total_over cats patterns df =
     on_ok (exclusive_category_results patterns df) (\<lambda>exclusive. sum_counts exclusive cats)"

definition multi_total_over ::
  "(nat set \<Rightarrow> nat list) \<Rightarrow> string list \<Rightarrow> rules \<Rightarrow> string list \<Rightarrow> py_error + int" where
  "multi_total_over set_to_list cats patterns df =
     on_ok (multi_category_results set_to_list patterns df) (\<lambda>multi. sum_counts multi cats)"

text \<open>A frame that has a cell exactly for the pairs of the given labels.\<close>

definition frame_over :: "string list \<Rightarrow> frame \<Rightarrow> bool" where
  "frame_over labels m \<longleftrightarrow>
     (\<forall>a b. (m (a, b) \<noteq> None) = (a \<in> set labels \<and> b \<in> set labels))"

text \<open>
  How often \<open>update_matrix\<close> adds one to a cell: for every position of the list of
  matched categories, once for each later-or-equal entry that makes up the cell with
  it, in either order.
\<close>

fun increments :: "string list \<Rightarrow> string \<times> string \<Rightarrow> nat" where
  "increments [] cell = 0"
| "increments (cat1 # rest) cell =
     length [cat2 \<leftarrow> cat1 # rest. cell = (cat1, cat2) \<or> cell = (cat2, cat1)]
       + increments rest cell"

text \<open>The rule set with the rules at two positions exchanged.\<close>

definition swap_rules :: "nat \<Rightarrow> nat \<Rightarrow> rules \<Rightarrow> rules" where
  "swap_rules i j patterns = patterns[i := patterns ! j, j := patterns ! i]"

section \<open>A sample run\<close>

text \<open>
  On a finite sample of headlines a rule's predicate is the list of the sample's
  headlines in which its regular expression is found.
\<close>

definition found_in :: "string list \<Rightarrow> matcher" where
  "found_in hits = (\<lambda>headline. headline \<in> set hits)"

text \<open>
  The eighteen rules on the six headlines below: \<^verbatim>\<open>deaf\<close> is a keyword of
  \<^verbatim>\<open>Deaf/Hearing\<close>; \<^verbatim>\<open>son\<close> and \<^verbatim>\<open>mum\<close> of the family rule; \<^verbatim>\<open>blind\<close> of
  \<^verbatim>\<open>Blind/Vision\<close> and \<^verbatim>\<open>Marathon\<close> of the sports rule; \<^verbatim>\<open>council\<close> and \<^verbatim>\<open>funding\<close> of
  the benefits rule; \<^verbatim>\<open>autism\<close>, \<^verbatim>\<open>charity\<close> and \<^verbatim>\<open>cafe\<close> of the autism, charity and
  work rules. \<^verbatim>\<open>inspires\<close> is not matched by \<^verbatim>\<open>inspire\<close> followed by a word boundary.
\<close>

definition sample_patterns :: rules where
  "sample_patterns =
    [(''SEND/Special Schools'', found_in []),
     (''Deaf/Hearing'', found_in [''Deaf woman wins BAFTA'', ''Deaf son inspires mum'']),
     (''Blind/Vision'', found_in [''Blind runner completes marathon'']),
     (''Chronic Illness/Pain'', found_in []),
     (''Physical & Mobility'', found_in []),
     (''Learning Disabilities'', found_in []),
     (''Mental Health & Neuro'', found_in []),
     (''Autism/Neurodiversity'', found_in [''Autism charity opens cafe'']),
     (''Benefits, Care & Systemic Issues'', found_in [''Local council funding cut'']),
     (''Accessibility & Inclusion'', found_in []),
     (''Family & Carer Perspective'', found_in [''Deaf son inspires mum'']),
     (''Sports, Arts & Culture'', found_in [''Blind runner completes marathon'']),
     (''Charity, People & Community'', found_in [''Autism charity opens cafe'']),
     (''Animals & Well-being'', found_in []),
     (''Infrastructure & Transport'', found_in []),
     (''Work, Employment & Enterprise'', found_in [''Autism charity opens cafe'']),
     (''Personal Stories & Empowerment'', found_in []),
     (''General 'Disability' Keyword'', found_in [])]"

definition sample_headlines :: "string list" where
  "sample_headlines =
    [''Deaf woman wins BAFTA'', ''Blind runner completes marathon'',
     ''Local council funding cut'', ''Deaf son inspires mum'', ''Weather update'']"

text \<open>Two of the next three headlines are matched by no rule.\<close>

definition sample_headlines_unmatched :: "string list" where
  "sample_headlines_unmatched =
    [''Weather update'', ''Deaf woman wins BAFTA'', ''Traffic news'']"

definition sample_headlines_autism :: "string list" where
  "sample_headlines_autism = sample_headlines @ [''Autism charity opens cafe'']"

section \<open>Error plumbing and dictionaries\<close>

lemma on_ok_Inr [simp]: "on_ok (Inr x) f = f x"
  by (simp add: on_ok_def)

lemma on_ok_Inl [simp]: "on_ok (Inl e) f = Inl e"
  by (simp add: on_ok_def)

lemma dict_get_Some: "map_of d k = Some v \<Longrightarrow> dict_get d k = Inr v"
  by (simp add: dict_get_def)

lemma map_of_key_ex: "k \<in> fst ` set d \<Longrightarrow> \<exists>v. map_of d k = Some v"
  by (metis domD dom_map_of_conv_image_fst)

lemma exclusive_sum_update:
  "map_of d k = Some e \<Longrightarrow>
     exclusive_sum (AList.update k v d) = exclusive_sum d - count e + count v"
  by (induction d) (auto simp: exclusive_sum_def split: if_splits)

lemma add_headline_sum:
  assumes "label \<in> fst ` set d"
  shows "\<exists>d'. add_headline label headline d = Inr d' \<and> map fst d' = map fst d
           \<and> exclusive_sum d' = exclusive_sum d + 1"
proof -
  from assms obtain e where e: "map_of d label = Some e"
    using map_of_key_ex by fastforce
  have keys: "label \<in> set (map fst d)" using assms by simp
  show ?thesis
    using e keys
    by (simp add: add_headline_def dict_get_Some exclusive_sum_update AList.update_keys)
qed

lemma first_match_wins_sum:
  assumes "fst ` set patterns \<subseteq> fst ` set d"
  shows "\<exists>d' matched. first_match_wins patterns headline d = Inr (d', matched)
           \<and> map fst d' = map fst d
           \<and> exclusive_sum d' = exclusive_sum d + (if matched then 1 else 0)"
  using assms
proof (induction patterns)
  case Nil
  show ?case by (intro exI [of _ d] exI [of _ False]) simp
next
  case (Cons rule rest)
  obtain label pattern where rule: "rule = (label, pattern)" by (cases rule)
  show ?case
  proof (cases "pattern headline")
    case True
    from Cons.prems rule have "label \<in> fst ` set d" by auto
    from add_headline_sum [OF this, of headline]
    obtain d' where "add_headline label headline d = Inr d'" "map fst d' = map fst d"
      "exclusive_sum d' = exclusive_sum d + 1"
      by blast
    with True rule show ?thesis
      by (intro exI [of _ d'] exI [of _ True]) simp
  next
    case False
    from Cons.prems have "fst ` set rest \<subseteq> fst ` set d" by auto
    from Cons.IH [OF this] False rule show ?thesis by simp
  qed
qed

lemma exclusive_step_sum:
  assumes "fst ` set patterns \<subseteq> fst ` set d" and "''Uncategorized'' \<in> fst ` set d"
  shows "\<exists>d'. on_ok (first_match_wins patterns headline d)
                (\<lambda>(d', matched).
                    if \<not> matched then add_headline ''Uncategorized'' headline d' else Inr d')
              = Inr d'
           \<and> map fst d' = map fst d \<and> exclusive_sum d' = exclusive_sum d + 1"
proof -
  from first_match_wins_sum [OF assms(1), of headline]
  obtain d1 matched where
    run: "first_match_wins patterns headline d = Inr (d1, matched)" and
    keys: "map fst d1 = map fst d" and
    total: "exclusive_sum d1 = exclusive_sum d + (if matched then 1 else 0)"
    by blast
  show ?thesis
  proof (cases matched)
    case True
    with run keys total show ?thesis by simp
  next
    case False
    have "fst ` set d1 = fst ` set d"
      using keys by (metis set_map)
    with assms(2) have "''Uncategorized'' \<in> fst ` set d1" by simp
    from add_headline_sum [OF this, of headline]
    obtain d2 where "add_headline ''Uncategorized'' headline d1 = Inr d2"
      "map fst d2 = map fst d1" "exclusive_sum d2 = exclusive_sum d1 + 1"
      by blast
    with False run keys total show ?thesis by simp
  qed
qed

lemma exclusive_loop_unfold:
  "exclusive_loop patterns (headline # df) d =
     on_ok (on_ok (first_match_wins patterns headline d)
              (\<lambda>(d', matched).
                  if \<not> matched then add_headline ''Uncategorized'' headline d' else Inr d'))
       (exclusive_loop patterns df)"
  by (cases "first_match_wins patterns headline d") (auto split: prod.splits)

lemma exclusive_loop_sum:
  assumes "fst ` set patterns \<subseteq> fst ` set d" and "''Uncategorized'' \<in> fst ` set d"
  shows "\<exists>d'. exclusive_loop patterns df d = Inr d' \<and> map fst d' = map fst d
           \<and> exclusive_sum d' = exclusive_sum d + int (length df)"
  using assms
proof (induction df arbitrary: d)
  case Nil
  then show ?case by simp
next
  case (Cons headline df)
  from exclusive_step_sum [OF Cons.prems, of headline]
  obtain d2 where
    step: "on_ok (first_match_wins patterns headline d)
             (\<lambda>(d', matched).
                 if \<not> matched then add_headline ''Uncategorized'' headline d' else Inr d')
           = Inr d2" and
    keys: "map fst d2 = map fst d" and
    total: "exclusive_sum d2 = exclusive_sum d + 1"
    by blast
  have "fst ` set d2 = fst ` set d"
    using keys by (metis set_map)
  with Cons.prems have "fst ` set patterns \<subseteq> fst ` set d2"
    and "''Uncategorized'' \<in> fst ` set d2" by simp_all
  from Cons.IH [OF this]
  obtain d' where "exclusive_loop patterns df d2 = Inr d'" "map fst d' = map fst d2"
    "exclusive_sum d' = exclusive_sum d2 + int (length df)"
    by blast
  with step keys total show ?case
    by (simp only: exclusive_loop_unfold) simp
qed

lemma foldl_update_keys:
  "fst ` set (foldl (\<lambda>d label. AList.update label v d) d0 labels) = fst ` set d0 \<union> set labels"
  by (induction labels arbitrary: d0) (auto simp: AList.dom_update)

lemma exclusive_init_keys:
  "fst ` set (exclusive_init patterns) = insert ''Uncategorized'' (fst ` set patterns)"
  by (simp add: exclusive_init_def AList.dom_update foldl_update_keys)

lemma update_all_entries:
  "\<forall>(l, e) \<in> set d. P e \<Longrightarrow> P v \<Longrightarrow> \<forall>(l, e) \<in> set (AList.update k v d). P e"
  by (induction d) (auto split: if_splits)

lemma foldl_update_all_entries:
  "\<forall>(l, e) \<in> set d0. P e \<Longrightarrow> P v \<Longrightarrow>
     \<forall>(l, e) \<in> set (foldl (\<lambda>d label. AList.update label v d) d0 labels). P e"
proof (induction labels arbitrary: d0)
  case Nil
  then show ?case by simp
next
  case (Cons label labels)
  from update_all_entries [OF Cons.prems(1), of v label] Cons.prems(2)
  have "\<forall>(l, e) \<in> set (AList.update label v d0). P e" by simp
  from Cons.IH [OF this Cons.prems(2)] show ?case by simp
qed

lemma exclusive_init_entries: "\<forall>(l, e) \<in> set (exclusive_init patterns). e = empty_entry"
  unfolding exclusive_init_def
  by (rule update_all_entries, rule foldl_update_all_entries) simp_all

lemma exclusive_init_sum: "exclusive_sum (exclusive_init patterns) = 0"
proof -
  have "\<forall>(l, e) \<in> set d. e = empty_entry \<Longrightarrow> exclusive_sum d = 0" for d :: results
    by (induction d) (auto simp: exclusive_sum_def empty_entry_def)
  with exclusive_init_entries show ?thesis by blast
qed

lemma exclusive_total_aux:
  "\<exists>res. exclusive_category_results patterns df = Inr res
         \<and> exclusive_sum res = int (length df)"
proof -
  have "fst ` set patterns \<subseteq> fst ` set (exclusive_init patterns)"
    and "''Uncategorized'' \<in> fst ` set (exclusive_init patterns)"
    by (auto simp: exclusive_init_keys)
  from exclusive_loop_sum [OF this, of df] show ?thesis
    by (auto simp: exclusive_category_results_def exclusive_init_sum)
qed

section \<open>The exclusive classifier partitions the headlines\<close>

lemma sample_total:
  "on_ok (exclusive_category_results sample_patterns sample_headlines)
     (\<lambda>exclusive. Inr (exclusive_sum exclusive)) = Inr 5"
  by code_simp

text \<open>
  C1. For every headline sequence and every ordered rule set the exclusive classifier
  returns a result, and the sum of all its category counts, the \<open>Uncategorized\<close>
  sentinel included, is exactly the number of headlines.
\<close>

theorem exclusive_partition_total:
  "\<exists>res. exclusive_category_results patterns df = Inr res
         \<and> exclusive_sum res = int (length df)"
  by (rule exclusive_total_aux)

theorem exclusive_partition_total_witness:
  "(\<exists>res. exclusive_category_results sample_patterns sample_headlines = Inr res
          \<and> exclusive_sum res = int (length sample_headlines))
   \<and> on_ok (exclusive_category_results sample_patterns sample_headlines)
        (\<lambda>exclusive. Inr (exclusive_sum exclusive)) = Inr 5
   \<and> length sample_headlines = 5"
proof -
  have "length sample_headlines = 5" by (simp add: sample_headlines_def)
  with exclusive_partition_total [of sample_patterns sample_headlines] sample_total
  show ?thesis by (intro conjI)
qed

section \<open>What the exclusive pass stores\<close>

lemma exclusive_step_assigned:
  "on_ok (first_match_wins patterns headline d)
     (\<lambda>(d', matched).
         if \<not> matched then add_headline ''Uncategorized'' headline d' else Inr d')
   = add_headline (spec_assigned_category patterns headline) headline d"
proof (induction patterns)
  case Nil
  show ?case by (simp add: spec_assigned_category_def)
next
  case (Cons rule rest)
  obtain label pattern where rule: "rule = (label, pattern)" by (cases rule)
  show ?case
  proof (cases "pattern headline")
    case True
    then show ?thesis
      by (cases "add_headline label headline d")
         (simp_all add: rule spec_assigned_category_def)
  next
    case False
    with Cons.IH show ?thesis
      by (simp add: rule spec_assigned_category_def)
  qed
qed

lemma exclusive_loop_assigned:
  "exclusive_loop patterns (headline # df) d =
     on_ok (add_headline (spec_assigned_category patterns headline) headline d)
       (exclusive_loop patterns df)"
  by (simp only: exclusive_loop_unfold exclusive_step_assigned)

lemma spec_assigned_category_key:
  "spec_assigned_category patterns headline \<in> insert ''Uncategorized'' (fst ` set patterns)"
proof (cases "find (\<lambda>(label, pattern). pattern headline) patterns")
  case None
  then show ?thesis by (simp add: spec_assigned_category_def)
next
  case (Some rule)
  then have "rule \<in> set patterns"
    by (metis find_Some_iff nth_mem)
  with Some show ?thesis
    by (cases rule) (auto simp: spec_assigned_category_def intro: rev_image_eqI)
qed

lemma add_headline_entries:
  assumes "map_of d label = Some e"
  shows "add_headline label headline d =
           Inr (AList.update label
                  \<lparr>count = count e + 1, headlines = headlines e @ [headline]\<rparr> d)"
  using assms by (simp add: add_headline_def dict_get_Some)

lemma exclusive_loop_entries:
  assumes "\<forall>h \<in> set df. spec_assigned_category patterns h \<in> fst ` set d"
  shows "\<exists>d'. exclusive_loop patterns df d = Inr d' \<and> map fst d' = map fst d
           \<and> (\<forall>l e. map_of d l = Some e \<longrightarrow>
                 map_of d' l =
                   Some \<lparr>count = count e + int (length [h \<leftarrow> df. spec_assigned_category patterns h = l]),
                         headlines = headlines e @ [h \<leftarrow> df. spec_assigned_category patterns h = l]\<rparr>)"
  using assms
proof (induction df arbitrary: d)
  case Nil
  show ?case by simp
next
  case (Cons headline df)
  let ?a = "spec_assigned_category patterns headline"
  from Cons.prems have "?a \<in> fst ` set d" by simp
  then obtain e0 where e0: "map_of d ?a = Some e0"
    using map_of_key_ex by fastforce
  define d1 where
    "d1 = AList.update ?a \<lparr>count = count e0 + 1, headlines = headlines e0 @ [headline]\<rparr> d"
  have step: "add_headline ?a headline d = Inr d1"
    using add_headline_entries [OF e0] by (simp add: d1_def)
  have keys1: "map fst d1 = map fst d"
    using \<open>?a \<in> fst ` set d\<close> by (simp add: d1_def AList.update_keys)
  then have "fst ` set d1 = fst ` set d"
    by (metis set_map)
  with Cons.prems have "\<forall>h \<in> set df. spec_assigned_category patterns h \<in> fst ` set d1"
    by simp
  from Cons.IH [OF this] obtain d' where
    run: "exclusive_loop patterns df d1 = Inr d'" and
    keys: "map fst d' = map fst d1" and
    ents: "\<And>l e. map_of d1 l = Some e \<Longrightarrow>
             map_of d' l =
               Some \<lparr>count = count e + int (length [h \<leftarrow> df. spec_assigned_category patterns h = l]),
                     headlines = headlines e @ [h \<leftarrow> df. spec_assigned_category patterns h = l]\<rparr>"
    by blast
  have "map_of d' l =
          Some \<lparr>count = count e + int (length [h \<leftarrow> headline # df. spec_assigned_category patterns h = l]),
                headlines = headlines e @ [h \<leftarrow> headline # df. spec_assigned_category patterns h = l]\<rparr>"
    if l: "map_of d l = Some e" for l e
  proof (cases "l = ?a")
    case True
    with l e0 have "e = e0" by simp
    have "map_of d1 l = Some \<lparr>count = count e0 + 1, headlines = headlines e0 @ [headline]\<rparr>"
      using True by (simp add: d1_def AList.update_conv')
    from ents [OF this] True \<open>e = e0\<close> show ?thesis by simp
  next
    case False
    then have "map_of d1 l = Some e"
      using l by (simp add: d1_def AList.update_conv')
    from ents [OF this] False show ?thesis by simp
  qed
  with run keys keys1 step show ?case
    by (simp only: exclusive_loop_assigned) simp
qed

lemma exclusive_init_lookup:
  assumes "l \<in> insert ''Uncategorized'' (fst ` set patterns)"
  shows "map_of (exclusive_init patterns) l = Some empty_entry"
proof -
  from assms have "l \<in> fst ` set (exclusive_init patterns)"
    by (simp add: exclusive_init_keys)
  then obtain e where e: "map_of (exclusive_init patterns) l = Some e"
    using map_of_key_ex by fastforce
  then have "(l, e) \<in> set (exclusive_init patterns)"
    by (rule map_of_SomeD)
  with exclusive_init_entries have "e = empty_entry" by fastforce
  with e show ?thesis by simp
qed

lemma exclusive_entries:
  "\<exists>res. exclusive_category_results patterns df = Inr res
     \<and> map fst res = map fst (exclusive_init patterns)
     \<and> (\<forall>l \<in> insert ''Uncategorized'' (fst ` set patterns).
           map_of res l = Some (entry_of [h \<leftarrow> df. spec_assigned_category patterns h = l]))"
proof -
  have "\<forall>h \<in> set df. spec_assigned_category patterns h \<in> fst ` set (exclusive_init patterns)"
    using spec_assigned_category_key by (simp add: exclusive_init_keys)
  from exclusive_loop_entries [OF this] obtain res where
    run: "exclusive_loop patterns df (exclusive_init patterns) = Inr res" and
    keys: "map fst res = map fst (exclusive_init patterns)" and
    ents: "\<And>l e. map_of (exclusive_init patterns) l = Some e \<Longrightarrow>
             map_of res l =
               Some \<lparr>count = count e + int (length [h \<leftarrow> df. spec_assigned_category patterns h = l]),
                     headlines = headlines e @ [h \<leftarrow> df. spec_assigned_category patterns h = l]\<rparr>"
    by blast
  have "map_of res l = Some (entry_of [h \<leftarrow> df. spec_assigned_category patterns h = l])"
    if "l \<in> insert ''Uncategorized'' (fst ` set patterns)" for l
    using ents [OF exclusive_init_lookup [OF that]]
    by (simp add: entry_of_def empty_entry_def)
  with run keys show ?thesis
    by (simp add: exclusive_category_results_def)
qed

section \<open>What the multi-category pass stores\<close>

lemma loc_map: "\<forall>i \<in> set labels. i < length df \<Longrightarrow> loc df labels = Inr (map ((!) df) labels)"
  by (induction labels) simp_all

lemma index_where_contains:
  "index_where (str_contains df pattern) = [i \<leftarrow> [0..<length df]. pattern (df ! i)]"
  by (auto simp: index_where_def str_contains_def intro: filter_cong)

lemma nth_filter_indices:
  "map ((!) df) [i \<leftarrow> [0..<length df]. pattern (df ! i)] = filter pattern df"
proof -
  have "filter pattern df = filter pattern (map ((!) df) [0..<length df])"
    by (simp add: map_nth)
  also have "\<dots> = map ((!) df) (filter (pattern \<circ> (!) df) [0..<length df])"
    by (simp only: filter_map)
  finally show ?thesis by (simp add: comp_def)
qed

lemma multi_loop_result:
  "multi_loop patterns df (res, matched) =
     Inr (foldl (\<lambda>r (label, pattern). AList.update label (entry_of (filter pattern df)) r)
            res patterns,
          matched \<union> {i. i < length df \<and> (\<exists>(label, pattern) \<in> set patterns. pattern (df ! i))})"
proof (induction patterns arbitrary: res matched)
  case Nil
  show ?case by simp
next
  case (Cons rule rest)
  obtain label pattern where rule: "rule = (label, pattern)" by (cases rule)
  have idx: "loc df [i \<leftarrow> [0..<length df]. pattern (df ! i)] = Inr (filter pattern df)"
    by (simp add: loc_map nth_filter_indices)
  show ?case
    unfolding rule
    by (simp add: index_where_contains idx Cons.IH entry_of_def) auto
qed

lemma match_count_zero:
  "match_count patterns headline = 0 \<longleftrightarrow> \<not> (\<exists>(label, pattern) \<in> set patterns. pattern headline)"
  by (auto simp: match_count_def filter_empty_conv)

lemma unmatched_headlines_mset:
  assumes "enumerates set_to_list"
  shows "mset (map ((!) df) (set_to_list {i. i < length df \<and> match_count patterns (df ! i) = 0}))
           = mset [h \<leftarrow> df. match_count patterns h = 0]"
proof -
  let ?S = "{i. i < length df \<and> match_count patterns (df ! i) = 0}"
  let ?is = "[i \<leftarrow> [0..<length df]. match_count patterns (df ! i) = 0]"
  have fin: "finite ?S" by simp
  with assms have e: "set (set_to_list ?S) = ?S" "distinct (set_to_list ?S)"
    by (simp_all add: enumerates_def)
  have s: "set ?is = ?S" "distinct ?is" by auto
  have "mset (set_to_list ?S) = mset ?is"
  proof -
    have "set (set_to_list ?S) = set ?is" using e(1) s(1) by simp
    with e(2) s(2) show ?thesis
      by (simp only: set_eq_iff_mset_eq_distinct)
  qed
  then have "mset (map ((!) df) (set_to_list ?S)) = mset (map ((!) df) ?is)"
    by (metis mset_map)
  also have "map ((!) df) ?is = [h \<leftarrow> df. match_count patterns h = 0]"
    by (rule nth_filter_indices [of df "\<lambda>h. match_count patterns h = 0"])
  finally show ?thesis .
qed

lemma multi_results:
  assumes "enumerates set_to_list"
  shows "\<exists>us. multi_category_results set_to_list patterns df =
              Inr (AList.update ''Uncategorized'' (entry_of us)
                     (foldl (\<lambda>r (label, pattern).
                               AList.update label (entry_of (filter pattern df)) r)
                        [] patterns))
           \<and> mset us = mset [h \<leftarrow> df. match_count patterns h = 0]"
proof -
  let ?S = "{i. i < length df \<and> match_count patterns (df ! i) = 0}"
  have unmatched:
    "set [0..<length df]
       - ({} \<union> {i. i < length df \<and> (\<exists>(label, pattern) \<in> set patterns. pattern (df ! i))}) = ?S"
    by (auto simp: match_count_zero)
  have "finite ?S" by simp
  with assms have "set (set_to_list ?S) = ?S"
    by (simp add: enumerates_def)
  then have "\<forall>i \<in> set (set_to_list ?S). i < length df" by simp
  then have l: "loc df (set_to_list ?S) = Inr (map ((!) df) (set_to_list ?S))"
    by (rule loc_map)
  have "multi_category_results set_to_list patterns df =
          Inr (AList.update ''Uncategorized'' (entry_of (map ((!) df) (set_to_list ?S)))
                 (foldl (\<lambda>r (label, pattern).
                           AList.update label (entry_of (filter pattern df)) r)
                    [] patterns))"
    by (simp only: multi_category_results_def multi_loop_result on_ok_Inr prod.case Let_def
          unmatched l entry_of_def)
  with unmatched_headlines_mset [OF assms, of df patterns] show ?thesis
    by blast
qed

lemma enumerates_sorted: "enumerates sorted_list_of_set"
  by (simp add: enumerates_def)

section \<open>Dictionaries built by repeated assignment\<close>

lemma foldl_entry_keys:
  "fst ` set (foldl (\<lambda>r (label, pattern). AList.update label (f pattern) r) res patterns)
     = fst ` set res \<union> fst ` set patterns"
proof (induction patterns arbitrary: res)
  case Nil
  show ?case by simp
next
  case (Cons rule rest)
  obtain label pattern where rule: "rule = (label, pattern)" by (cases rule)
  show ?case
    unfolding rule by (simp add: Cons.IH AList.dom_update)
qed

lemma foldl_entry_all:
  assumes "\<forall>(l, e) \<in> set res. P e" and "\<And>pattern. P (f pattern)"
  shows "\<forall>(l, e) \<in> set (foldl (\<lambda>r (label, pattern). AList.update label (f pattern) r)
                            res patterns). P e"
  using assms(1)
proof (induction patterns arbitrary: res)
  case Nil
  then show ?case by simp
next
  case (Cons rule rest)
  obtain label pattern where rule: "rule = (label, pattern)" by (cases rule)
  from update_all_entries [OF Cons.prems, of "f pattern" label] assms(2)
  have "\<forall>(l, e) \<in> set (AList.update label (f pattern) res). P e" by simp
  from Cons.IH [OF this] show ?case by (simp add: rule)
qed

lemma foldl_entry_other:
  "l \<notin> fst ` set patterns \<Longrightarrow>
     map_of (foldl (\<lambda>r (label, pattern). AList.update label (f pattern) r) res patterns) l
       = map_of res l"
  by (induction patterns arbitrary: res) (auto simp: AList.update_conv')

lemma foldl_entry_lookup:
  assumes "distinct (map fst patterns)" and "(l, p) \<in> set patterns"
  shows "map_of (foldl (\<lambda>r (label, pattern). AList.update label (f pattern) r) res patterns) l
           = Some (f p)"
  using assms
proof (induction patterns arbitrary: res)
  case Nil
  then show ?case by simp
next
  case (Cons rule rest)
  obtain label pattern where rule: "rule = (label, pattern)" by (cases rule)
  show ?case
  proof (cases "(l, p) = rule")
    case True
    with Cons.prems(1) rule have "l \<notin> fst ` set rest" by auto
    from foldl_entry_other [OF this, where f = f and res = "AList.update label (f pattern) res"]
      True rule
    show ?thesis
      by (simp add: AList.update_conv')
  next
    case False
    with Cons.prems have "distinct (map fst rest)" "(l, p) \<in> set rest" by auto
    from Cons.IH [OF this] show ?thesis by (simp add: rule)
  qed
qed

lemma foldl_update_distinct:
  "distinct (map fst d0) \<Longrightarrow>
     distinct (map fst (foldl (\<lambda>d label. AList.update label v d) d0 labels))"
  by (induction labels arbitrary: d0) (simp_all add: AList.distinct_update)

lemma exclusive_init_distinct: "distinct (map fst (exclusive_init patterns))"
  by (simp add: exclusive_init_def AList.distinct_update foldl_update_distinct)

lemma entry_of_count: "count (entry_of hs) = int (length (headlines (entry_of hs)))"
  by (simp add: entry_of_def)

lemma multi_results_counts:
  assumes "enumerates set_to_list"
  shows "\<exists>multi. multi_category_results set_to_list patterns df = Inr multi
           \<and> fst ` set multi = insert ''Uncategorized'' (fst ` set patterns)
           \<and> (\<forall>(l, e) \<in> set multi. count e = int (length (headlines e)))"
proof -
  from multi_results [OF assms, of patterns df] obtain us where
    run: "multi_category_results set_to_list patterns df =
            Inr (AList.update ''Uncategorized'' (entry_of us)
                   (foldl (\<lambda>r (label, pattern).
                             AList.update label (entry_of (filter pattern df)) r)
                      [] patterns))"
    by blast
  let ?P = "\<lambda>e. count e = int (length (headlines e))"
  have "\<forall>(l, e) \<in> set (foldl (\<lambda>r (label, pattern).
                               AList.update label (entry_of (filter pattern df)) r)
                        [] patterns). ?P e"
    by (rule foldl_entry_all) (simp_all add: entry_of_count)
  then have "\<forall>(l, e) \<in> set (AList.update ''Uncategorized'' (entry_of us)
                   (foldl (\<lambda>r (label, pattern).
                             AList.update label (entry_of (filter pattern df)) r)
                      [] patterns)). ?P e"
    by (rule update_all_entries) (rule entry_of_count)
  with run show ?thesis
    by (simp add: AList.dom_update foldl_entry_keys)
qed

lemma exclusive_results_counts:
  "\<exists>exclusive. exclusive_category_results patterns df = Inr exclusive
     \<and> fst ` set exclusive = insert ''Uncategorized'' (fst ` set patterns)
     \<and> (\<forall>(l, e) \<in> set exclusive. count e = int (length (headlines e)))"
proof -
  from exclusive_entries [of patterns df] obtain res where
    run: "exclusive_category_results patterns df = Inr res" and
    keys: "map fst res = map fst (exclusive_init patterns)" and
    ents: "\<And>l. l \<in> insert ''Uncategorized'' (fst ` set patterns) \<Longrightarrow>
             map_of res l = Some (entry_of [h \<leftarrow> df. spec_assigned_category patterns h = l])"
    by blast
  have dom: "fst ` set res = insert ''Uncategorized'' (fst ` set patterns)"
    using keys exclusive_init_keys [of patterns] by (metis set_map)
  have dist: "distinct (map fst res)"
    using keys exclusive_init_distinct [of patterns] by simp
  have "count e = int (length (headlines e))" if "(l, e) \<in> set res" for l e
  proof -
    from that dom have "l \<in> insert ''Uncategorized'' (fst ` set patterns)"
      by (metis fst_conv image_eqI)
    from ents [OF this] map_of_is_SomeI [OF dist that] show ?thesis
      by (simp add: entry_of_count)
  qed
  then have "\<forall>(l, e) \<in> set res. count e = int (length (headlines e))"
    by (metis (mono_tags, lifting) case_prodI2)
  with run dom show ?thesis
    by (intro exI [of _ res]) (simp only: simp_thms)
qed

section \<open>Stored counts and stored lists\<close>

text \<open>
  C10. After a classification run, in the multi-category results and in the exclusive
  results alike, every entry (one per rule label, and \<open>Uncategorized\<close>) stores a count
  that is the length of its list of headlines. The multi-category pass walks a set;
  the statement holds for every order in which the set is walked.
\<close>

theorem counts_are_list_lengths:
  assumes "enumerates set_to_list"
  shows "\<exists>multi exclusive.
           multi_category_results set_to_list patterns df = Inr multi
         \<and> exclusive_category_results patterns df = Inr exclusive
         \<and> fst ` set multi = insert ''Uncategorized'' (fst ` set patterns)
         \<and> fst ` set exclusive = insert ''Uncategorized'' (fst ` set patterns)
         \<and> (\<forall>(label, e) \<in> set multi. count e = int (length (headlines e)))
         \<and> (\<forall>(label, e) \<in> set exclusive. count e = int (length (headlines e)))"
proof -
  from multi_results_counts [OF assms, of patterns df] obtain multi where
    m: "multi_category_results set_to_list patterns df = Inr multi"
       "fst ` set multi = insert ''Uncategorized'' (fst ` set patterns)"
       "\<forall>(label, e) \<in> set multi. count e = int (length (headlines e))"
    by (elim exE conjE)
  from exclusive_results_counts [of patterns df] obtain exclusive where
    x: "exclusive_category_results patterns df = Inr exclusive"
       "fst ` set exclusive = insert ''Uncategorized'' (fst ` set patterns)"
       "\<forall>(label, e) \<in> set exclusive. count e = int (length (headlines e))"
    by (elim exE conjE)
  from m x show ?thesis
    by (intro exI [of _ multi] exI [of _ exclusive] conjI)
qed

theorem counts_are_list_lengths_witness:
  "enumerates sorted_list_of_set
   \<and> (\<exists>multi exclusive.
           multi_category_results sorted_list_of_set sample_patterns sample_headlines = Inr multi
         \<and> exclusive_category_results sample_patterns sample_headlines = Inr exclusive
         \<and> fst ` set multi = insert ''Uncategorized'' (fst ` set sample_patterns)
         \<and> fst ` set exclusive = insert ''Uncategorized'' (fst ` set sample_patterns)
         \<and> (\<forall>(label, e) \<in> set multi. count e = int (length (headlines e)))
         \<and> (\<forall>(label, e) \<in> set exclusive. count e = int (length (headlines e))))"
  using counts_are_list_lengths [OF enumerates_sorted, of sample_patterns sample_headlines]
    enumerates_sorted
  by (intro conjI)

section \<open>Reading the two result dictionaries\<close>

lemma assigned_uncategorized:
  assumes "''Uncategorized'' \<notin> fst ` set patterns"
  shows "spec_assigned_category patterns headline = ''Uncategorized''
           \<longleftrightarrow> match_count patterns headline = 0"
proof (cases "find (\<lambda>(label, pattern). pattern headline) patterns")
  case None
  then have "match_count patterns headline = 0"
    by (auto simp: match_count_zero find_None_iff)
  with None show ?thesis by (simp add: spec_assigned_category_def)
next
  case (Some rule)
  obtain label pattern where rule: "rule = (label, pattern)" by (cases rule)
  from Some have mem: "rule \<in> set patterns" and hit: "pattern headline"
    unfolding rule by (metis find_Some_iff nth_mem, metis (mono_tags, lifting) find_Some_iff case_prod_conv)
  from mem rule assms have "label \<noteq> ''Uncategorized''"
    by (metis fst_conv image_eqI)
  moreover from mem hit rule have "match_count patterns headline \<noteq> 0"
    by (auto simp: match_count_zero)
  ultimately show ?thesis
    using Some rule by (simp add: spec_assigned_category_def)
qed

lemma first_match_wins_ignores_rest:
  assumes "pattern headline"
  shows "first_match_wins (before @ (label, pattern) # rest) headline d
           = first_match_wins (before @ [(label, pattern)]) headline d"
proof (induction before)
  case Nil
  from assms show ?case by simp
next
  case (Cons rule before)
  obtain l p where rule: "rule = (l, p)" by (cases rule)
  from Cons.IH show ?case by (simp add: rule)
qed

lemma multi_lookup:
  assumes "enumerates set_to_list" and "distinct (map fst patterns)"
  shows "\<exists>multi. multi_category_results set_to_list patterns df = Inr multi
           \<and> (\<forall>(label, pattern) \<in> set patterns.
                 label \<noteq> ''Uncategorized'' \<longrightarrow>
                 dict_get multi label = Inr (entry_of (filter pattern df)))"
proof -
  from multi_results [OF assms(1), of patterns df] obtain us where
    m: "multi_category_results set_to_list patterns df =
          Inr (AList.update ''Uncategorized'' (entry_of us)
                 (foldl (\<lambda>r (label, pattern).
                           AList.update label (entry_of (filter pattern df)) r)
                    [] patterns))"
    by blast
  have "dict_get (AList.update ''Uncategorized'' (entry_of us)
                 (foldl (\<lambda>r (label, pattern).
                           AList.update label (entry_of (filter pattern df)) r)
                    [] patterns)) label = Inr (entry_of (filter pattern df))"
    if "(label, pattern) \<in> set patterns" and "label \<noteq> ''Uncategorized''" for label pattern
    using that foldl_entry_lookup [OF assms(2) that(1), of "\<lambda>p. entry_of (filter p df)" "[]"]
    by (simp add: dict_get_def AList.update_conv')
  then have "\<forall>(label, pattern) \<in> set patterns.
               label \<noteq> ''Uncategorized'' \<longrightarrow>
               dict_get (AList.update ''Uncategorized'' (entry_of us)
                 (foldl (\<lambda>r (label, pattern).
                           AList.update label (entry_of (filter pattern df)) r)
                    [] patterns)) label = Inr (entry_of (filter pattern df))"
    by blast
  with m show ?thesis
    by (intro exI conjI)
qed

lemma exclusive_lookup:
  "\<exists>exclusive. exclusive_category_results patterns df = Inr exclusive
     \<and> (\<forall>label \<in> insert ''Uncategorized'' (fst ` set patterns).
           dict_get exclusive label =
             Inr (entry_of [h \<leftarrow> df. spec_assigned_category patterns h = label]))"
proof -
  from exclusive_entries [of patterns df] obtain x where
    x: "exclusive_category_results patterns df = Inr x" and
    ents: "\<forall>l \<in> insert ''Uncategorized'' (fst ` set patterns).
             map_of x l = Some (entry_of [h \<leftarrow> df. spec_assigned_category patterns h = l])"
    by blast
  from ents have "\<forall>label \<in> insert ''Uncategorized'' (fst ` set patterns).
           dict_get x label =
             Inr (entry_of [h \<leftarrow> df. spec_assigned_category patterns h = label])"
    by (simp add: dict_get_def)
  with x show ?thesis by (intro exI conjI)
qed

lemma sample_patterns_keys: "map fst sample_patterns = pattern_labels"
  by (simp add: sample_patterns_def pattern_labels_def)

lemma pattern_labels_distinct: "distinct pattern_labels"
  by (simp add: pattern_labels_def)

lemma pattern_labels_sentinel: "''Uncategorized'' \<notin> set pattern_labels"
  by (simp add: pattern_labels_def)

lemma sample_exclusive_run:
  "exclusive_category_results sample_patterns sample_headlines =
     Inr [(''SEND/Special Schools'', \<lparr>count = 0, headlines = []\<rparr>),
          (''Deaf/Hearing'',
           \<lparr>count = 2, headlines = [''Deaf woman wins BAFTA'', ''Deaf son inspires mum'']\<rparr>),
          (''Blind/Vision'', \<lparr>count = 1, headlines = [''Blind runner completes marathon'']\<rparr>),
          (''Chronic Illness/Pain'', \<lparr>count = 0, headlines = []\<rparr>),
          (''Physical & Mobility'', \<lparr>count = 0, headlines = []\<rparr>),
          (''Learning Disabilities'', \<lparr>count = 0, headlines = []\<rparr>),
          (''Mental Health & Neuro'', \<lparr>count = 0, headlines = []\<rparr>),
          (''Autism/Neurodiversity'', \<lparr>count = 0, headlines = []\<rparr>),
          (''Benefits, Care & Systemic Issues'',
           \<lparr>count = 1, headlines = [''Local council funding cut'']\<rparr>),
          (''Accessibility & Inclusion'', \<lparr>count = 0, headlines = []\<rparr>),
          (''Family & Carer Perspective'', \<lparr>count = 0, headlines = []\<rparr>),
          (''Sports, Arts & Culture'', \<lparr>count = 0, headlines = []\<rparr>),
          (''Charity, People & Community'', \<lparr>count = 0, headlines = []\<rparr>),
          (''Animals & Well-being'', \<lparr>count = 0, headlines = []\<rparr>),
          (''Infrastructure & Transport'', \<lparr>count = 0, headlines = []\<rparr>),
          (''Work, Employment & Enterprise'', \<lparr>count = 0, headlines = []\<rparr>),
          (''Personal Stories & Empowerment'', \<lparr>count = 0, headlines = []\<rparr>),
          (''General 'Disability' Keyword'', \<lparr>count = 0, headlines = []\<rparr>),
          (''Uncategorized'', \<lparr>count = 1, headlines = [''Weather update'']\<rparr>)]"
  by code_simp

lemma sample_multi_run:
  "multi_category_results sorted_list_of_set sample_patterns sample_headlines =
     Inr [(''SEND/Special Schools'', \<lparr>count = 0, headlines = []\<rparr>),
          (''Deaf/Hearing'',
           \<lparr>count = 2, headlines = [''Deaf woman wins BAFTA'', ''Deaf son inspires mum'']\<rparr>),
          (''Blind/Vision'', \<lparr>count = 1, headlines = [''Blind runner completes marathon'']\<rparr>),
          (''Chronic Illness/Pain'', \<lparr>count = 0, headlines = []\<rparr>),
          (''Physical & Mobility'', \<lparr>count = 0, headlines = []\<rparr>),
          (''Learning Disabilities'', \<lparr>count = 0, headlines = []\<rparr>),
          (''Mental Health & Neuro'', \<lparr>count = 0, headlines = []\<rparr>),
          (''Autism/Neurodiversity'', \<lparr>count = 0, headlines = []\<rparr>),
          (''Benefits, Care & Systemic Issues'',
           \<lparr>count = 1, headlines = [''Local council funding cut'']\<rparr>),
          (''Accessibility & Inclusion'', \<lparr>count = 0, headlines = []\<rparr>),
          (''Family & Carer Perspective'', \<lparr>count = 1, headlines = [''Deaf son inspires mum'']\<rparr>),
          (''Sports, Arts & Culture'',
           \<lparr>count = 1, headlines = [''Blind runner completes marathon'']\<rparr>),
          (''Charity, People & Community'', \<lparr>count = 0, headlines = []\<rparr>),
          (''Animals & Well-being'', \<lparr>count = 0, headlines = []\<rparr>),
          (''Infrastructure & Transport'', \<lparr>count = 0, headlines = []\<rparr>),
          (''Work, Employment & Enterprise'', \<lparr>count = 0, headlines = []\<rparr>),
          (''Personal Stories & Empowerment'', \<lparr>count = 0, headlines = []\<rparr>),
          (''General 'Disability' Keyword'', \<lparr>count = 0, headlines = []\<rparr>),
          (''Uncategorized'', \<lparr>count = 1, headlines = [''Weather update'']\<rparr>)]"
  by code_simp

section \<open>The two passes agree on the uncategorized headlines\<close>

text \<open>
  C9. For a rule set that has no rule labelled \<open>Uncategorized\<close> (the script's rule set
  has none), both passes return, the \<open>Uncategorized\<close> entry of the multi-category
  results has the same count as the \<open>Uncategorized\<close> entry of the exclusive results,
  and the two entries hold the same headlines: those that no rule matches. The
  multi-category pass may list them in another order.
\<close>

theorem uncategorized_counts_agree:
  assumes "enumerates set_to_list" and "''Uncategorized'' \<notin> fst ` set patterns"
  shows "\<exists>multi exclusive em ex.
           multi_category_results set_to_list patterns df = Inr multi
         \<and> exclusive_category_results patterns df = Inr exclusive
         \<and> dict_get multi ''Uncategorized'' = Inr em
         \<and> dict_get exclusive ''Uncategorized'' = Inr ex
         \<and> count em = count ex
         \<and> headlines ex = [h \<leftarrow> df. match_count patterns h = 0]
         \<and> mset (headlines em) = mset (headlines ex)"
proof -
  from multi_results [OF assms(1), of patterns df] obtain us where
    m: "multi_category_results set_to_list patterns df =
          Inr (AList.update ''Uncategorized'' (entry_of us)
                 (foldl (\<lambda>r (label, pattern).
                           AList.update label (entry_of (filter pattern df)) r)
                    [] patterns))" and
    us: "mset us = mset [h \<leftarrow> df. match_count patterns h = 0]"
    by blast
  from exclusive_entries [of patterns df] obtain x where
    x: "exclusive_category_results patterns df = Inr x" and
    ents: "\<forall>l \<in> insert ''Uncategorized'' (fst ` set patterns).
             map_of x l = Some (entry_of [h \<leftarrow> df. spec_assigned_category patterns h = l])"
    by blast
  have "[h \<leftarrow> df. spec_assigned_category patterns h = ''Uncategorized'']
          = [h \<leftarrow> df. match_count patterns h = 0]"
    by (rule filter_cong) (simp_all add: assigned_uncategorized [OF assms(2)])
  with ents have xu: "map_of x ''Uncategorized'' = Some (entry_of [h \<leftarrow> df. match_count patterns h = 0])"
    by simp
  from us have "size (mset us) = size (mset [h \<leftarrow> df. match_count patterns h = 0])"
    by simp
  then have len: "length us = length [h \<leftarrow> df. match_count patterns h = 0]"
    by (simp only: size_mset)
  show ?thesis
    apply (rule exI [of _ "AList.update ''Uncategorized'' (entry_of us)
                 (foldl (\<lambda>r (label, pattern).
                           AList.update label (entry_of (filter pattern df)) r)
                    [] patterns)"])
    apply (rule exI [of _ x])
    apply (rule exI [of _ "entry_of us"])
    apply (rule exI [of _ "entry_of [h \<leftarrow> df. match_count patterns h = 0]"])
    using m x xu us len
    apply (simp add: dict_get_def AList.update_conv' entry_of_def)
    done
qed

theorem uncategorized_counts_agree_witness:
  "enumerates sorted_list_of_set
   \<and> ''Uncategorized'' \<notin> fst ` set sample_patterns
   \<and> (\<exists>multi exclusive em ex.
           multi_category_results sorted_list_of_set sample_patterns sample_headlines = Inr multi
         \<and> exclusive_category_results sample_patterns sample_headlines = Inr exclusive
         \<and> dict_get multi ''Uncategorized'' = Inr em
         \<and> dict_get exclusive ''Uncategorized'' = Inr ex
         \<and> count em = count ex
         \<and> headlines ex = [h \<leftarrow> sample_headlines. match_count sample_patterns h = 0]
         \<and> mset (headlines em) = mset (headlines ex))
   \<and> on_ok (multi_category_results sorted_list_of_set sample_patterns sample_headlines)
        (\<lambda>multi. dict_get multi ''Uncategorized'')
      = Inr \<lparr>count = 1, headlines = [''Weather update'']\<rparr>
   \<and> on_ok (exclusive_category_results sample_patterns sample_headlines)
        (\<lambda>exclusive. dict_get exclusive ''Uncategorized'')
      = Inr \<lparr>count = 1, headlines = [''Weather update'']\<rparr>"
proof -
  have sentinel: "''Uncategorized'' \<notin> fst ` set sample_patterns"
    using pattern_labels_sentinel sample_patterns_keys by (metis set_map)
  have multi: "on_ok (multi_category_results sorted_list_of_set sample_patterns sample_headlines)
        (\<lambda>multi. dict_get multi ''Uncategorized'')
      = Inr \<lparr>count = 1, headlines = [''Weather update'']\<rparr>"
    by (simp add: sample_multi_run dict_get_def)
  have exclusive: "on_ok (exclusive_category_results sample_patterns sample_headlines)
        (\<lambda>exclusive. dict_get exclusive ''Uncategorized'')
      = Inr \<lparr>count = 1, headlines = [''Weather update'']\<rparr>"
    by (simp add: sample_exclusive_run dict_get_def)
  from uncategorized_counts_agree [OF enumerates_sorted sentinel, of sample_headlines]
    enumerates_sorted sentinel multi exclusive
  show ?thesis by (intro conjI)
qed

section \<open>Every match against the first match\<close>

text \<open>
  C5. For a rule set with one rule per label and no rule labelled \<open>Uncategorized\<close>:
  the multi-category entry of a rule holds every headline its predicate matches, in
  row order, whatever the other rules match; the exclusive entry of a label holds the
  headlines whose first matching rule, in declaration order, carries that label, and
  the \<open>Uncategorized\<close> entry those that no rule matches. Once a rule matches a
  headline the result of the inner loop does not depend on the rules after it.
\<close>

theorem every_match_and_first_match:
  assumes "enumerates set_to_list" and "distinct (map fst patterns)"
    and "''Uncategorized'' \<notin> fst ` set patterns"
  shows "\<exists>multi exclusive.
           multi_category_results set_to_list patterns df = Inr multi
         \<and> exclusive_category_results patterns df = Inr exclusive
         \<and> (\<forall>(label, pattern) \<in> set patterns.
               dict_get multi label = Inr (entry_of (filter pattern df)))
         \<and> (\<forall>label \<in> insert ''Uncategorized'' (fst ` set patterns).
               dict_get exclusive label =
                 Inr (entry_of [h \<leftarrow> df. spec_assigned_category patterns h = label]))
         \<and> (\<forall>before label pattern rest headline d.
               pattern headline \<longrightarrow>
               first_match_wins (before @ (label, pattern) # rest) headline d
                 = first_match_wins (before @ [(label, pattern)]) headline d)"
proof -
  from multi_lookup [OF assms(1,2), of df] obtain multi where
    m: "multi_category_results set_to_list patterns df = Inr multi" and
    ml: "\<forall>(label, pattern) \<in> set patterns.
           label \<noteq> ''Uncategorized'' \<longrightarrow>
           dict_get multi label = Inr (entry_of (filter pattern df))"
    by (elim exE conjE)
  from exclusive_lookup [of patterns df] obtain exclusive where
    x: "exclusive_category_results patterns df = Inr exclusive" and
    xl: "\<forall>label \<in> insert ''Uncategorized'' (fst ` set patterns).
           dict_get exclusive label =
             Inr (entry_of [h \<leftarrow> df. spec_assigned_category patterns h = label])"
    by (elim exE conjE)
  have ml': "\<forall>(label, pattern) \<in> set patterns.
               dict_get multi label = Inr (entry_of (filter pattern df))"
  proof (clarify)
    fix label pattern
    assume mem: "(label, pattern) \<in> set patterns"
    with assms(3) have "label \<noteq> ''Uncategorized''"
      by (metis fst_conv image_eqI)
    with ml mem show "dict_get multi label = Inr (entry_of (filter pattern df))"
      by blast
  qed
  from m x ml' xl show ?thesis
    by (intro exI [of _ multi] exI [of _ exclusive] conjI allI impI
          first_match_wins_ignores_rest)
qed

theorem every_match_and_first_match_witness:
  "enumerates sorted_list_of_set
   \<and> distinct (map fst sample_patterns)
   \<and> ''Uncategorized'' \<notin> fst ` set sample_patterns
   \<and> (\<exists>multi exclusive.
           multi_category_results sorted_list_of_set sample_patterns sample_headlines = Inr multi
         \<and> exclusive_category_results sample_patterns sample_headlines = Inr exclusive
         \<and> (\<forall>(label, pattern) \<in> set sample_patterns.
               dict_get multi label = Inr (entry_of (filter pattern sample_headlines)))
         \<and> (\<forall>label \<in> insert ''Uncategorized'' (fst ` set sample_patterns).
               dict_get exclusive label =
                 Inr (entry_of [h \<leftarrow> sample_headlines.
                                  spec_assigned_category sample_patterns h = label]))
         \<and> (\<forall>before label pattern rest headline d.
               pattern headline \<longrightarrow>
               first_match_wins (before @ (label, pattern) # rest) headline d
                 = first_match_wins (before @ [(label, pattern)]) headline d))
   \<and> on_ok (multi_category_results sorted_list_of_set sample_patterns sample_headlines)
        (\<lambda>multi. dict_get multi ''Deaf/Hearing'')
      = Inr \<lparr>count = 2, headlines = [''Deaf woman wins BAFTA'', ''Deaf son inspires mum'']\<rparr>
   \<and> on_ok (multi_category_results sorted_list_of_set sample_patterns sample_headlines)
        (\<lambda>multi. dict_get multi ''Family & Carer Perspective'')
      = Inr \<lparr>count = 1, headlines = [''Deaf son inspires mum'']\<rparr>
   \<and> on_ok (exclusive_category_results sample_patterns sample_headlines)
        (\<lambda>exclusive. dict_get exclusive ''Deaf/Hearing'')
      = Inr \<lparr>count = 2, headlines = [''Deaf woman wins BAFTA'', ''Deaf son inspires mum'']\<rparr>
   \<and> on_ok (exclusive_category_results sample_patterns sample_headlines)
        (\<lambda>exclusive. dict_get exclusive ''Family & Carer Perspective'')
      = Inr \<lparr>count = 0, headlines = []\<rparr>"
proof -
  have keys: "distinct (map fst sample_patterns)"
    using pattern_labels_distinct by (simp only: sample_patterns_keys)
  have sentinel: "''Uncategorized'' \<notin> fst ` set sample_patterns"
    using pattern_labels_sentinel sample_patterns_keys by (metis set_map)
  have m1: "on_ok (multi_category_results sorted_list_of_set sample_patterns sample_headlines)
        (\<lambda>multi. dict_get multi ''Deaf/Hearing'')
      = Inr \<lparr>count = 2, headlines = [''Deaf woman wins BAFTA'', ''Deaf son inspires mum'']\<rparr>"
    by (simp add: sample_multi_run dict_get_def)
  have m2: "on_ok (multi_category_results sorted_list_of_set sample_patterns sample_headlines)
        (\<lambda>multi. dict_get multi ''Family & Carer Perspective'')
      = Inr \<lparr>count = 1, headlines = [''Deaf son inspires mum'']\<rparr>"
    by (simp add: sample_multi_run dict_get_def)
  have x1: "on_ok (exclusive_category_results sample_patterns sample_headlines)
        (\<lambda>exclusive. dict_get exclusive ''Deaf/Hearing'')
      = Inr \<lparr>count = 2, headlines = [''Deaf woman wins BAFTA'', ''Deaf son inspires mum'']\<rparr>"
    by (simp add: sample_exclusive_run dict_get_def)
  have x2: "on_ok (exclusive_category_results sample_patterns sample_headlines)
        (\<lambda>exclusive. dict_get exclusive ''Family & Carer Perspective'')
      = Inr \<lparr>count = 0, headlines = []\<rparr>"
    by (simp add: sample_exclusive_run dict_get_def)
  from every_match_and_first_match [OF enumerates_sorted keys sentinel, of sample_headlines]
    enumerates_sorted keys sentinel m1 m2 x1 x2
  show ?thesis by (intro conjI)
qed

section \<open>Exchanging two rules\<close>

lemma sample_swapped_deaf:
  "on_ok (exclusive_category_results (swap_rules 1 10 sample_patterns) sample_headlines)
     (\<lambda>exclusive. dict_get exclusive ''Deaf/Hearing'')
   = Inr \<lparr>count = 1, headlines = [''Deaf woman wins BAFTA'']\<rparr>"
  by code_simp

lemma sample_swapped_family:
  "on_ok (exclusive_category_results (swap_rules 1 10 sample_patterns) sample_headlines)
     (\<lambda>exclusive. dict_get exclusive ''Family & Carer Perspective'')
   = Inr \<lparr>count = 1, headlines = [''Deaf son inspires mum'']\<rparr>"
  by code_simp

lemma sample_swapped_total:
  "on_ok (exclusive_category_results (swap_rules 1 10 sample_patterns) sample_headlines)
     (\<lambda>exclusive. Inr (exclusive_sum exclusive)) = Inr 5"
  by code_simp

lemma sample_patterns_length: "length sample_patterns = 18"
  by (simp add: sample_patterns_def)

text \<open>
  C8. Exchanging the rules at two positions of the rule set permutes it, and the
  exclusive classifier's total (the sum of all category counts, \<open>Uncategorized\<close>
  included) is the same before and after, namely the number of headlines. The entries
  of single categories may change: on the sample, exchanging \<open>Deaf/Hearing\<close> with the
  family rule moves a headline from the one to the other.
\<close>

theorem reordering_keeps_total:
  assumes "i < length patterns" and "j < length patterns"
  shows "mset (swap_rules i j patterns) = mset patterns
       \<and> (\<exists>res res'.
             exclusive_category_results patterns df = Inr res
           \<and> exclusive_category_results (swap_rules i j patterns) df = Inr res'
           \<and> exclusive_sum res' = exclusive_sum res
           \<and> exclusive_sum res = int (length df))"
proof -
  have perm: "mset (swap_rules i j patterns) = mset patterns"
    unfolding swap_rules_def using assms by (simp add: mset_swap)
  from exclusive_total_aux [of patterns df] obtain res where
    r: "exclusive_category_results patterns df = Inr res" "exclusive_sum res = int (length df)"
    by (elim exE conjE)
  from exclusive_total_aux [of "swap_rules i j patterns" df] obtain res' where
    r': "exclusive_category_results (swap_rules i j patterns) df = Inr res'"
      "exclusive_sum res' = int (length df)"
    by (elim exE conjE)
  from r r' have "\<exists>res res'.
             exclusive_category_results patterns df = Inr res
           \<and> exclusive_category_results (swap_rules i j patterns) df = Inr res'
           \<and> exclusive_sum res' = exclusive_sum res
           \<and> exclusive_sum res = int (length df)"
    by (intro exI [of _ res] exI [of _ res']) simp
  with perm show ?thesis by (rule conjI)
qed

theorem reordering_keeps_total_witness:
  "1 < length sample_patterns
   \<and> 10 < length sample_patterns
   \<and> mset (swap_rules 1 10 sample_patterns) = mset sample_patterns
   \<and> (\<exists>res res'.
         exclusive_category_results sample_patterns sample_headlines = Inr res
       \<and> exclusive_category_results (swap_rules 1 10 sample_patterns) sample_headlines = Inr res'
       \<and> exclusive_sum res' = exclusive_sum res
       \<and> exclusive_sum res = int (length sample_headlines))
   \<and> on_ok (exclusive_category_results sample_patterns sample_headlines)
        (\<lambda>exclusive. dict_get exclusive ''Family & Carer Perspective'')
      = Inr \<lparr>count = 0, headlines = []\<rparr>
   \<and> on_ok (exclusive_category_results (swap_rules 1 10 sample_patterns) sample_headlines)
        (\<lambda>exclusive. dict_get exclusive ''Family & Carer Perspective'')
      = Inr \<lparr>count = 1, headlines = [''Deaf son inspires mum'']\<rparr>
   \<and> on_ok (exclusive_category_results (swap_rules 1 10 sample_patterns) sample_headlines)
        (\<lambda>exclusive. dict_get exclusive ''Deaf/Hearing'')
      = Inr \<lparr>count = 1, headlines = [''Deaf woman wins BAFTA'']\<rparr>
   \<and> on_ok (exclusive_category_results sample_patterns sample_headlines)
        (\<lambda>exclusive. Inr (exclusive_sum exclusive)) = Inr 5
   \<and> on_ok (exclusive_category_results (swap_rules 1 10 sample_patterns) sample_headlines)
        (\<lambda>exclusive. Inr (exclusive_sum exclusive)) = Inr 5"
proof -
  have i: "1 < length sample_patterns" and j: "10 < length sample_patterns"
    by (simp_all add: sample_patterns_length)
  have family: "on_ok (exclusive_category_results sample_patterns sample_headlines)
        (\<lambda>exclusive. dict_get exclusive ''Family & Carer Perspective'')
      = Inr \<lparr>count = 0, headlines = []\<rparr>"
    by (simp add: sample_exclusive_run dict_get_def)
  from reordering_keeps_total [OF i j, of sample_headlines] i j family
    sample_swapped_family sample_swapped_deaf sample_total sample_swapped_total
  show ?thesis by (intro conjI) simp_all
qed

section \<open>The visibility ratios\<close>

lemma sum_counts_ok:
  "set cats \<subseteq> fst ` set res \<Longrightarrow> \<exists>s. sum_counts res cats = Inr s"
proof (induction cats)
  case Nil
  show ?case by simp
next
  case (Cons cat cats)
  from Cons.prems have "cat \<in> fst ` set res" by simp
  then obtain e where "map_of res cat = Some e"
    using map_of_key_ex by fastforce
  then have "dict_get res cat = Inr e" by (rule dict_get_Some)
  moreover from Cons obtain s where "sum_counts res cats = Inr s" by auto
  ultimately show ?case by simp
qed

lemma visibility_analysis_cases:
  assumes "sum_counts exclusive visible_categories = Inr ve"
    and "sum_counts exclusive invisible_categories = Inr ie"
    and "sum_counts multi visible_categories = Inr vm"
    and "sum_counts multi invisible_categories = Inr im"
  shows "visibility_analysis exclusive multi len_df =
           (if len_df = 0 \<or> ie = 0 \<or> im = 0 then Inl ZeroDivisionError
            else Inr \<lparr>visible_exclusive = ve, invisible_exclusive = ie,
                      visible_multi = vm, invisible_multi = im,
                      ratio_exclusive = of_int ve / of_int ie,
                      ratio_multi = of_int vm / of_int im\<rparr>)"
  using assms by (simp add: visibility_analysis_def truediv_def)

lemma sample_invisible_exclusive:
  "exclusive_total_over invisible_categories sample_patterns sample_headlines = Inr 0"
  by code_simp

lemma sample_invisible_multi:
  "multi_total_over sorted_list_of_set invisible_categories sample_patterns sample_headlines = Inr 0"
  by code_simp

lemma sample_autism_sums:
  "exclusive_total_over visible_categories sample_patterns sample_headlines_autism = Inr 3"
  "exclusive_total_over invisible_categories sample_patterns sample_headlines_autism = Inr 1"
  "multi_total_over sorted_list_of_set visible_categories sample_patterns sample_headlines_autism
     = Inr 3"
  "multi_total_over sorted_list_of_set invisible_categories sample_patterns sample_headlines_autism
     = Inr 1"
  by code_simp+

lemma sample_visibility_labels:
  "set visible_categories \<union> set invisible_categories \<subseteq> fst ` set sample_patterns"
proof -
  have "set visible_categories \<union> set invisible_categories \<subseteq> set pattern_labels"
    by (simp add: visible_categories_def invisible_categories_def pattern_labels_def)
  then show ?thesis
    using sample_patterns_keys by (metis set_map)
qed

text \<open>
  C2, as the script behaves. The two ratios are plain divisions. When the seven
  visibility categories are rule labels, the four sums are computed without an error,
  and the visibility section raises \<^verbatim>\<open>ZeroDivisionError\<close> when there is no headline or
  when the invisible categories' sum is zero in the exclusive or in the multi-category
  results; otherwise it returns the two ratios, visible sum over invisible sum.
\<close>

theorem visibility_ratio_division:
  assumes "enumerates set_to_list"
    and "set visible_categories \<union> set invisible_categories \<subseteq> fst ` set patterns"
  shows "\<exists>ve ie vm im.
           exclusive_total_over visible_categories patterns df = Inr ve
         \<and> exclusive_total_over invisible_categories patterns df = Inr ie
         \<and> multi_total_over set_to_list visible_categories patterns df = Inr vm
         \<and> multi_total_over set_to_list invisible_categories patterns df = Inr im
         \<and> visibility_of set_to_list patterns df =
             (if df = [] \<or> ie = 0 \<or> im = 0 then Inl ZeroDivisionError
              else Inr \<lparr>visible_exclusive = ve, invisible_exclusive = ie,
                        visible_multi = vm, invisible_multi = im,
                        ratio_exclusive = of_int ve / of_int ie,
                        ratio_multi = of_int vm / of_int im\<rparr>)"
proof -
  from multi_results_counts [OF assms(1), of patterns df] obtain multi where
    m: "multi_category_results set_to_list patterns df = Inr multi" and
    mk: "fst ` set multi = insert ''Uncategorized'' (fst ` set patterns)"
    by (elim exE conjE)
  from exclusive_results_counts [of patterns df] obtain exclusive where
    x: "exclusive_category_results patterns df = Inr exclusive" and
    xk: "fst ` set exclusive = insert ''Uncategorized'' (fst ` set patterns)"
    by (elim exE conjE)
  from assms(2) have vis: "set visible_categories \<subseteq> fst ` set patterns"
    and inv: "set invisible_categories \<subseteq> fst ` set patterns"
    by (simp_all only: le_sup_iff)
  have "set visible_categories \<subseteq> fst ` set exclusive"
    unfolding xk using vis by (rule subset_insertI2)
  then obtain ve where ve: "sum_counts exclusive visible_categories = Inr ve"
    using sum_counts_ok by blast
  have "set invisible_categories \<subseteq> fst ` set exclusive"
    unfolding xk using inv by (rule subset_insertI2)
  then obtain ie where ie: "sum_counts exclusive invisible_categories = Inr ie"
    using sum_counts_ok by blast
  have "set visible_categories \<subseteq> fst ` set multi"
    unfolding mk using vis by (rule subset_insertI2)
  then obtain vm where vm: "sum_counts multi visible_categories = Inr vm"
    using sum_counts_ok by blast
  have "set invisible_categories \<subseteq> fst ` set multi"
    unfolding mk using inv by (rule subset_insertI2)
  then obtain im where im: "sum_counts multi invisible_categories = Inr im"
    using sum_counts_ok by blast
  note s = ve ie vm im
  from visibility_analysis_cases [OF s, of "int (length df)"] m x s show ?thesis
    by (intro exI [of _ ve] exI [of _ ie] exI [of _ vm] exI [of _ im])
       (simp add: visibility_of_def exclusive_total_over_def multi_total_over_def)
qed

theorem visibility_ratio_division_witness:
  "enumerates sorted_list_of_set
   \<and> set visible_categories \<union> set invisible_categories \<subseteq> fst ` set sample_patterns
   \<and> visibility_of sorted_list_of_set sample_patterns sample_headlines_autism =
        Inr \<lparr>visible_exclusive = 3, invisible_exclusive = 1,
             visible_multi = 3, invisible_multi = 1,
             ratio_exclusive = 3, ratio_multi = 3\<rparr>"
proof -
  from visibility_ratio_division [OF enumerates_sorted sample_visibility_labels,
      of sample_headlines_autism]
  obtain ve ie vm im where
    "exclusive_total_over visible_categories sample_patterns sample_headlines_autism = Inr ve"
    "exclusive_total_over invisible_categories sample_patterns sample_headlines_autism = Inr ie"
    "multi_total_over sorted_list_of_set visible_categories sample_patterns sample_headlines_autism
       = Inr vm"
    "multi_total_over sorted_list_of_set invisible_categories sample_patterns sample_headlines_autism
       = Inr im" and
    v: "visibility_of sorted_list_of_set sample_patterns sample_headlines_autism =
             (if sample_headlines_autism = [] \<or> ie = 0 \<or> im = 0 then Inl ZeroDivisionError
              else Inr \<lparr>visible_exclusive = ve, invisible_exclusive = ie,
                        visible_multi = vm, invisible_multi = im,
                        ratio_exclusive = of_int ve / of_int ie,
                        ratio_multi = of_int vm / of_int im\<rparr>)"
    by (elim exE conjE)
  with sample_autism_sums have "ve = 3" "ie = 1" "vm = 3" "im = 1" by simp_all
  moreover have "sample_headlines_autism \<noteq> []"
    by (simp add: sample_headlines_autism_def)
  ultimately have "visibility_of sorted_list_of_set sample_patterns sample_headlines_autism =
        Inr \<lparr>visible_exclusive = 3, invisible_exclusive = 1,
             visible_multi = 3, invisible_multi = 1,
             ratio_exclusive = 3, ratio_multi = 3\<rparr>"
    using v by simp
  with enumerates_sorted sample_visibility_labels show ?thesis by (intro conjI)
qed

text \<open>
  On the five sample headlines no invisible category is matched: both invisible sums
  are zero and the visibility section ends in \<^verbatim>\<open>ZeroDivisionError\<close>, where C2 asks for an
  indicator to be returned.
\<close>

theorem visibility_ratio_raises:
  "sample_headlines \<noteq> []
   \<and> exclusive_total_over invisible_categories sample_patterns sample_headlines = Inr 0
   \<and> multi_total_over sorted_list_of_set invisible_categories sample_patterns sample_headlines = Inr 0
   \<and> visibility_of sorted_list_of_set sample_patterns sample_headlines = Inl ZeroDivisionError"
proof -
  have "sample_headlines \<noteq> []" by (simp add: sample_headlines_def)
  moreover have "visibility_of sorted_list_of_set sample_patterns sample_headlines
                   = Inl ZeroDivisionError"
    by code_simp
  ultimately show ?thesis
    using sample_invisible_exclusive sample_invisible_multi by (intro conjI)
qed

section \<open>The cells of the co-occurrence matrix\<close>

lemma matched_cats_result:
  "set labels \<subseteq> fst ` set patterns \<Longrightarrow>
     matched_cats patterns labels headline =
       Inr [l \<leftarrow> labels. \<exists>p. map_of patterns l = Some p \<and> p headline]"
proof (induction labels)
  case Nil
  show ?case by simp
next
  case (Cons label labels)
  from Cons.prems have "label \<in> fst ` set patterns" by simp
  then obtain p where p: "map_of patterns label = Some p"
    using map_of_key_ex by fastforce
  from Cons have "matched_cats patterns labels headline =
       Inr [l \<leftarrow> labels. \<exists>p. map_of patterns l = Some p \<and> p headline]"
    by simp
  with p show ?case by (simp add: dict_get_Some)
qed

lemma frame_over_map_option:
  assumes "frame_over labels m" and "\<And>a b. m' (a, b) = map_option (f a b) (m (a, b))"
  shows "frame_over labels m'"
  using assms by (simp add: frame_over_def)

lemma pair_step_result:
  assumes "frame_over labels m" and "cat1 \<in> set labels" and "cat2 \<in> set labels"
  shows "\<exists>m'. on_ok (at_incr cat1 cat2 m)
                 (\<lambda>m1. if cat1 \<noteq> cat2 then at_incr cat2 cat1 m1 else Inr m1) = Inr m'
           \<and> (\<forall>a b. m' (a, b) =
                 map_option
                   (\<lambda>v. v + (if (a, b) = (cat1, cat2) \<or> (a, b) = (cat2, cat1) then 1 else 0))
                   (m (a, b)))"
proof -
  from assms obtain v w where v: "m (cat1, cat2) = Some v" and w: "m (cat2, cat1) = Some w"
    unfolding frame_over_def by (metis not_None_eq)
  show ?thesis
  proof (cases "cat1 = cat2")
    case True
    with v show ?thesis
      by (intro exI [of _ "m((cat1, cat2) \<mapsto> v + 1)"])
         (simp add: at_incr_def option.map_ident)
  next
    case False
    with v w show ?thesis
      by (intro exI [of _ "m((cat1, cat2) \<mapsto> v + 1, (cat2, cat1) \<mapsto> w + 1)"])
         (auto simp: at_incr_def option.map_ident)
  qed
qed

lemma pair_loop_unfold:
  "pair_loop cat1 (cat2 # rest) m =
     on_ok (on_ok (at_incr cat1 cat2 m)
              (\<lambda>m1. if cat1 \<noteq> cat2 then at_incr cat2 cat1 m1 else Inr m1))
       (pair_loop cat1 rest)"
  by (cases "at_incr cat1 cat2 m") simp_all

lemma map_option_add:
  "map_option (\<lambda>v. v + (j::int)) (map_option (\<lambda>v. v + i) x) = map_option (\<lambda>v. v + (i + j)) x"
  by (cases x) simp_all

lemma pair_loop_result:
  assumes "frame_over labels m" and "cat1 \<in> set labels" and "set cats \<subseteq> set labels"
  shows "\<exists>m'. pair_loop cat1 cats m = Inr m'
           \<and> (\<forall>a b. m' (a, b) =
                 map_option
                   (\<lambda>v. v + int (length [cat2 \<leftarrow> cats.
                                           (a, b) = (cat1, cat2) \<or> (a, b) = (cat2, cat1)]))
                   (m (a, b)))"
  using assms
proof (induction cats arbitrary: m)
  case Nil
  show ?case by (simp add: option.map_ident)
next
  case (Cons cat2 cats)
  from Cons.prems have c2: "cat2 \<in> set labels" and rest: "set cats \<subseteq> set labels"
    by simp_all
  from pair_step_result [OF Cons.prems(1,2) c2] obtain m2 where
    step: "on_ok (at_incr cat1 cat2 m)
             (\<lambda>m1. if cat1 \<noteq> cat2 then at_incr cat2 cat1 m1 else Inr m1) = Inr m2" and
    m2: "\<And>a b. m2 (a, b) =
           map_option
             (\<lambda>v. v + (if (a, b) = (cat1, cat2) \<or> (a, b) = (cat2, cat1) then 1 else 0))
             (m (a, b))"
    by blast
  have "frame_over labels m2"
    using Cons.prems(1) m2 by (rule frame_over_map_option)
  from Cons.IH [OF this Cons.prems(2) rest] obtain m' where
    run: "pair_loop cat1 cats m2 = Inr m'" and
    m': "\<And>a b. m' (a, b) =
           map_option
             (\<lambda>v. v + int (length [cat2 \<leftarrow> cats.
                                     (a, b) = (cat1, cat2) \<or> (a, b) = (cat2, cat1)]))
             (m2 (a, b))"
    by blast
  have "m' (a, b) =
          map_option
            (\<lambda>v. v + int (length [c \<leftarrow> cat2 # cats.
                                    (a, b) = (cat1, c) \<or> (a, b) = (c, cat1)]))
            (m (a, b))" for a b
    unfolding m' m2 map_option_add by simp
  with step run show ?case
    by (simp only: pair_loop_unfold on_ok_Inr) blast
qed

lemma update_matrix_result:
  assumes "frame_over labels m" and "set cats \<subseteq> set labels"
  shows "\<exists>m'. update_matrix cats m = Inr m'
           \<and> (\<forall>a b. m' (a, b) = map_option (\<lambda>v. v + int (increments cats (a, b))) (m (a, b)))"
  using assms
proof (induction cats arbitrary: m)
  case Nil
  show ?case by (simp add: option.map_ident)
next
  case (Cons cat1 rest)
  from Cons.prems have c1: "cat1 \<in> set labels" and sub: "set (cat1 # rest) \<subseteq> set labels"
    and rest: "set rest \<subseteq> set labels"
    by simp_all
  from pair_loop_result [OF Cons.prems(1) c1 sub] obtain m1 where
    step: "pair_loop cat1 (cat1 # rest) m = Inr m1" and
    m1: "\<And>a b. m1 (a, b) =
           map_option
             (\<lambda>v. v + int (length [cat2 \<leftarrow> cat1 # rest.
                                     (a, b) = (cat1, cat2) \<or> (a, b) = (cat2, cat1)]))
             (m (a, b))"
    by blast
  have "frame_over labels m1"
    using Cons.prems(1) m1 by (rule frame_over_map_option)
  from Cons.IH [OF this rest] obtain m' where
    run: "update_matrix rest m1 = Inr m'" and
    m': "\<And>a b. m' (a, b) = map_option (\<lambda>v. v + int (increments rest (a, b))) (m1 (a, b))"
    by blast
  have "m' (a, b) = map_option (\<lambda>v. v + int (increments (cat1 # rest) (a, b))) (m (a, b))"
    for a b
    unfolding m' m1 map_option_add by simp
  with step run show ?case
    by (simp only: update_matrix.simps on_ok_Inr) blast
qed

lemma co_occurrence_loop_result:
  assumes "frame_over labels m" and "set labels \<subseteq> fst ` set patterns"
  shows "\<exists>m'. co_occurrence_loop patterns labels df m = Inr m'
           \<and> (\<forall>a b. m' (a, b) =
                 map_option
                   (\<lambda>v. v + (\<Sum>h \<leftarrow> df. int (increments
                        [l \<leftarrow> labels. \<exists>p. map_of patterns l = Some p \<and> p h] (a, b))))
                   (m (a, b)))"
  using assms(1)
proof (induction df arbitrary: m)
  case Nil
  show ?case by (simp add: option.map_ident)
next
  case (Cons headline df)
  let ?cats = "[l \<leftarrow> labels. \<exists>p. map_of patterns l = Some p \<and> p headline]"
  have cats: "matched_cats patterns labels headline = Inr ?cats"
    using assms(2) by (rule matched_cats_result)
  have "set ?cats \<subseteq> set labels" by simp
  from update_matrix_result [OF Cons.prems this] obtain m1 where
    step: "update_matrix ?cats m = Inr m1" and
    m1: "\<And>a b. m1 (a, b) = map_option (\<lambda>v. v + int (increments ?cats (a, b))) (m (a, b))"
    by blast
  have "frame_over labels m1"
    using Cons.prems m1 by (rule frame_over_map_option)
  from Cons.IH [OF this] obtain m' where
    run: "co_occurrence_loop patterns labels df m1 = Inr m'" and
    m': "\<And>a b. m' (a, b) =
           map_option
             (\<lambda>v. v + (\<Sum>h \<leftarrow> df. int (increments
                  [l \<leftarrow> labels. \<exists>p. map_of patterns l = Some p \<and> p h] (a, b))))
             (m1 (a, b))"
    by blast
  have "m' (a, b) =
          map_option
            (\<lambda>v. v + (\<Sum>h \<leftarrow> headline # df. int (increments
                 [l \<leftarrow> labels. \<exists>p. map_of patterns l = Some p \<and> p h] (a, b))))
            (m (a, b))" for a b
    unfolding m' m1 map_option_add by simp
  with cats step run show ?case
    by (simp only: co_occurrence_loop.simps on_ok_Inr) blast
qed

lemma heatmap_labels_keys: "set (categories_for_heatmap patterns) \<subseteq> fst ` set patterns"
  by (auto simp: categories_for_heatmap_def)

lemma zero_frame_over: "frame_over labels (zero_frame labels)"
  by (simp add: frame_over_def zero_frame_def)

lemma co_occurrence_cells:
  "\<exists>m. co_occurrence_matrix patterns df = Inr m
     \<and> (\<forall>a b. m (a, b) =
           (if a \<in> set (categories_for_heatmap patterns)
               \<and> b \<in> set (categories_for_heatmap patterns)
            then Some (\<Sum>h \<leftarrow> df. int (increments
                   [l \<leftarrow> categories_for_heatmap patterns.
                      \<exists>p. map_of patterns l = Some p \<and> p h] (a, b)))
            else None))"
proof -
  let ?L = "categories_for_heatmap patterns"
  from co_occurrence_loop_result [OF zero_frame_over heatmap_labels_keys, of patterns df]
  obtain m where run: "co_occurrence_loop patterns ?L df (zero_frame ?L) = Inr m" and
    m: "\<And>a b. m (a, b) =
           map_option
             (\<lambda>v. v + (\<Sum>h \<leftarrow> df. int (increments
                  [l \<leftarrow> ?L. \<exists>p. map_of patterns l = Some p \<and> p h] (a, b))))
             (zero_frame ?L (a, b))"
    by blast
  have "m (a, b) =
           (if a \<in> set ?L \<and> b \<in> set ?L
            then Some (\<Sum>h \<leftarrow> df. int (increments
                   [l \<leftarrow> ?L. \<exists>p. map_of patterns l = Some p \<and> p h] (a, b)))
            else None)" for a b
    unfolding m by (simp add: zero_frame_def)
  with run show ?thesis
    by (simp only: co_occurrence_matrix_def Let_def) blast
qed

lemma increments_sym: "increments cats (a, b) = increments cats (b, a)"
proof (induction cats)
  case Nil
  show ?case by simp
next
  case (Cons cat1 rest)
  have "[cat2 \<leftarrow> cat1 # rest. (a, b) = (cat1, cat2) \<or> (a, b) = (cat2, cat1)]
          = [cat2 \<leftarrow> cat1 # rest. (b, a) = (cat1, cat2) \<or> (b, a) = (cat2, cat1)]"
    by (rule filter_cong) auto
  with Cons show ?case by (simp only: increments.simps)
qed

lemma increments_diagonal:
  "distinct cats \<Longrightarrow> increments cats (a, a) = (if a \<in> set cats then 1 else 0)"
proof (induction cats)
  case Nil
  show ?case by simp
next
  case (Cons cat1 rest)
  from Cons.prems have fresh: "cat1 \<notin> set rest" and dist: "distinct rest" by simp_all
  have none: "[cat2 \<leftarrow> rest. cat2 = cat1] = []"
    using fresh by (auto simp: filter_empty_conv)
  show ?case
  proof (cases "a = cat1")
    case True
    have "[cat2 \<leftarrow> cat1 # rest. (a, a) = (cat1, cat2) \<or> (a, a) = (cat2, cat1)]
            = cat1 # [cat2 \<leftarrow> rest. cat2 = cat1]"
      using True by (auto intro: filter_cong)
    with none True fresh Cons.IH [OF dist] show ?thesis by simp
  next
    case False
    then have "[cat2 \<leftarrow> cat1 # rest. (a, a) = (cat1, cat2) \<or> (a, a) = (cat2, cat1)] = []"
      by (simp add: filter_empty_conv)
    with False Cons.IH [OF dist] show ?thesis by simp
  qed
qed

lemma sum_list_indicator:
  "(\<Sum>h \<leftarrow> df. int (if P h then 1 else 0)) = int (length (filter P df))"
  by (induction df) simp_all

lemma heatmap_labels_distinct:
  "distinct (map fst patterns) \<Longrightarrow> distinct (categories_for_heatmap patterns)"
  by (simp add: categories_for_heatmap_def)

lemma co_occurrence_diagonal_cell:
  assumes "distinct (map fst patterns)" and "(A, p) \<in> set patterns"
    and "A \<in> set (categories_for_heatmap patterns)"
  shows "\<exists>m. co_occurrence_matrix patterns df = Inr m
           \<and> m (A, A) = Some (int (length (filter p df)))"
proof -
  let ?L = "categories_for_heatmap patterns"
  let ?cats = "\<lambda>h. [l \<leftarrow> ?L. \<exists>p. map_of patterns l = Some p \<and> p h]"
  from co_occurrence_cells [of patterns df] obtain m where
    run: "co_occurrence_matrix patterns df = Inr m" and
    m: "\<And>a b. m (a, b) =
           (if a \<in> set ?L \<and> b \<in> set ?L
            then Some (\<Sum>h \<leftarrow> df. int (increments (?cats h) (a, b)))
            else None)"
    by blast
  have look: "map_of patterns A = Some p"
    using assms(1,2) by (rule map_of_is_SomeI)
  have "distinct (?cats h)" for h
    using heatmap_labels_distinct [OF assms(1)] by simp
  then have "increments (?cats h) (A, A) = (if p h then 1 else 0)" for h
    using assms(3) look by (simp add: increments_diagonal)
  then have "(\<Sum>h \<leftarrow> df. int (increments (?cats h) (A, A)))
               = (\<Sum>h \<leftarrow> df. int (if p h then 1 else 0))"
    by simp
  also have "\<dots> = int (length (filter p df))"
    by (rule sum_list_indicator)
  finally have "m (A, A) = Some (int (length (filter p df)))"
    using assms(3) by (simp add: m)
  with run show ?thesis by blast
qed

lemma sample_cell_deaf_family:
  "on_ok (co_occurrence_matrix sample_patterns sample_headlines)
     (\<lambda>m. Inr (m (''Deaf/Hearing'', ''Family & Carer Perspective''))) = Inr (Some 1)"
  by code_simp

lemma sample_cell_family_deaf:
  "on_ok (co_occurrence_matrix sample_patterns sample_headlines)
     (\<lambda>m. Inr (m (''Family & Carer Perspective'', ''Deaf/Hearing''))) = Inr (Some 1)"
  by code_simp

lemma sample_cell_deaf_deaf:
  "on_ok (co_occurrence_matrix sample_patterns sample_headlines)
     (\<lambda>m. Inr (m (''Deaf/Hearing'', ''Deaf/Hearing''))) = Inr (Some 2)"
  by code_simp

lemma sample_cell_general:
  "on_ok (co_occurrence_matrix sample_patterns sample_headlines)
     (\<lambda>m. Inr (m (''Deaf/Hearing'', ''General 'Disability' Keyword''))) = Inr None"
  by code_simp

lemma sample_deaf_eligible: "''Deaf/Hearing'' \<in> set (categories_for_heatmap sample_patterns)"
  by code_simp

text \<open>
  C3. For every headline sequence and every rule set the co-occurrence pass returns a
  frame; cell \<open>(A, B)\<close> equals cell \<open>(B, A)\<close> for all labels, and the frame has a cell
  exactly for the pairs of eligible categories.
\<close>

theorem co_occurrence_symmetric:
  "\<exists>m. co_occurrence_matrix patterns df = Inr m
     \<and> (\<forall>a b. m (a, b) = m (b, a))
     \<and> (\<forall>a b. (m (a, b) \<noteq> None) =
           (a \<in> set (categories_for_heatmap patterns)
              \<and> b \<in> set (categories_for_heatmap patterns)))"
proof -
  from co_occurrence_cells [of patterns df] obtain m where
    run: "co_occurrence_matrix patterns df = Inr m" and
    m: "\<And>a b. m (a, b) =
           (if a \<in> set (categories_for_heatmap patterns)
               \<and> b \<in> set (categories_for_heatmap patterns)
            then Some (\<Sum>h \<leftarrow> df. int (increments
                   [l \<leftarrow> categories_for_heatmap patterns.
                      \<exists>p. map_of patterns l = Some p \<and> p h] (a, b)))
            else None)"
    by blast
  have sym: "m (a, b) = m (b, a)" for a b
    unfolding m by (simp add: increments_sym [of _ a b])
  have dom: "(m (a, b) \<noteq> None) =
           (a \<in> set (categories_for_heatmap patterns)
              \<and> b \<in> set (categories_for_heatmap patterns))" for a b
    unfolding m by simp
  from run sym dom show ?thesis by blast
qed

theorem co_occurrence_symmetric_witness:
  "(\<exists>m. co_occurrence_matrix sample_patterns sample_headlines = Inr m
        \<and> (\<forall>a b. m (a, b) = m (b, a))
        \<and> (\<forall>a b. (m (a, b) \<noteq> None) =
              (a \<in> set (categories_for_heatmap sample_patterns)
                 \<and> b \<in> set (categories_for_heatmap sample_patterns))))
   \<and> on_ok (co_occurrence_matrix sample_patterns sample_headlines)
        (\<lambda>m. Inr (m (''Deaf/Hearing'', ''Family & Carer Perspective''))) = Inr (Some 1)
   \<and> on_ok (co_occurrence_matrix sample_patterns sample_headlines)
        (\<lambda>m. Inr (m (''Family & Carer Perspective'', ''Deaf/Hearing''))) = Inr (Some 1)
   \<and> on_ok (co_occurrence_matrix sample_patterns sample_headlines)
        (\<lambda>m. Inr (m (''Deaf/Hearing'', ''General 'Disability' Keyword''))) = Inr None"
  using co_occurrence_symmetric [of sample_patterns sample_headlines]
    sample_cell_deaf_family sample_cell_family_deaf sample_cell_general
  by (intro conjI)

text \<open>
  C4. For a rule set with one rule per label and every eligible category \<open>A\<close> (a rule
  label other than the catch-all), the diagonal cell \<open>(A, A)\<close> of the co-occurrence
  matrix is the count stored for \<open>A\<close> by the multi-category pass.
\<close>

theorem co_occurrence_diagonal:
  assumes "enumerates set_to_list" and "distinct (map fst patterns)"
    and "A \<in> set (categories_for_heatmap patterns)"
  shows "\<exists>m multi e.
           co_occurrence_matrix patterns df = Inr m
         \<and> multi_category_results set_to_list patterns df = Inr multi
         \<and> dict_get multi A = Inr e
         \<and> m (A, A) = Some (count e)"
proof -
  from assms(3) have key: "A \<in> fst ` set patterns" and "A \<noteq> ''Uncategorized''"
    using heatmap_labels_keys by (auto simp: categories_for_heatmap_def)
  from key obtain p where p: "(A, p) \<in> set patterns" by auto
  from co_occurrence_diagonal_cell [OF assms(2) p assms(3), of df] obtain m where
    m: "co_occurrence_matrix patterns df = Inr m"
       "m (A, A) = Some (int (length (filter p df)))"
    by blast
  from multi_lookup [OF assms(1,2), of df] obtain multi where
    run: "multi_category_results set_to_list patterns df = Inr multi" and
    ents: "\<forall>(label, pattern) \<in> set patterns.
             label \<noteq> ''Uncategorized'' \<longrightarrow>
             dict_get multi label = Inr (entry_of (filter pattern df))"
    by (elim exE conjE)
  from ents p \<open>A \<noteq> ''Uncategorized''\<close>
  have e: "dict_get multi A = Inr (entry_of (filter p df))" by blast
  have "count (entry_of (filter p df)) = int (length (filter p df))"
    by (simp add: entry_of_def)
  with m run e show ?thesis
    by (intro exI [of _ m] exI [of _ multi] exI [of _ "entry_of (filter p df)"]) simp
qed

theorem co_occurrence_diagonal_witness:
  "enumerates sorted_list_of_set
   \<and> distinct (map fst sample_patterns)
   \<and> ''Deaf/Hearing'' \<in> set (categories_for_heatmap sample_patterns)
   \<and> (\<exists>m multi e.
           co_occurrence_matrix sample_patterns sample_headlines = Inr m
         \<and> multi_category_results sorted_list_of_set sample_patterns sample_headlines = Inr multi
         \<and> dict_get multi ''Deaf/Hearing'' = Inr e
         \<and> m (''Deaf/Hearing'', ''Deaf/Hearing'') = Some (count e))
   \<and> on_ok (co_occurrence_matrix sample_patterns sample_headlines)
        (\<lambda>m. Inr (m (''Deaf/Hearing'', ''Deaf/Hearing''))) = Inr (Some 2)
   \<and> on_ok (multi_category_results sorted_list_of_set sample_patterns sample_headlines)
        (\<lambda>multi. dict_get multi ''Deaf/Hearing'')
      = Inr \<lparr>count = 2, headlines = [''Deaf woman wins BAFTA'', ''Deaf son inspires mum'']\<rparr>"
proof -
  have keys: "distinct (map fst sample_patterns)"
    using pattern_labels_distinct by (simp only: sample_patterns_keys)
  have multi: "on_ok (multi_category_results sorted_list_of_set sample_patterns sample_headlines)
        (\<lambda>multi. dict_get multi ''Deaf/Hearing'')
      = Inr \<lparr>count = 2, headlines = [''Deaf woman wins BAFTA'', ''Deaf son inspires mum'']\<rparr>"
    by (simp add: sample_multi_run dict_get_def)
  from co_occurrence_diagonal [OF enumerates_sorted keys sample_deaf_eligible,
      of sample_headlines]
    enumerates_sorted keys sample_deaf_eligible sample_cell_deaf_deaf multi
  show ?thesis by (intro conjI)
qed

section \<open>The two totals\<close>

lemma foldl_entry_key_list:
  assumes "distinct (map fst patterns)" and "fst ` set res \<inter> fst ` set patterns = {}"
  shows "map fst (foldl (\<lambda>r (label, pattern). AList.update label (f pattern) r) res patterns)
           = map fst res @ map fst patterns"
  using assms
proof (induction patterns arbitrary: res)
  case Nil
  show ?case by simp
next
  case (Cons rule rest)
  obtain label pattern where rule: "rule = (label, pattern)" by (cases rule)
  from Cons.prems rule have fresh: "label \<notin> fst ` set res" and later: "label \<notin> fst ` set rest"
    and dist: "distinct (map fst rest)" and disj: "fst ` set res \<inter> fst ` set rest = {}"
    by auto
  have keys: "map fst (AList.update label (f pattern) res) = map fst res @ [label]"
    using fresh by (simp add: AList.update_keys)
  have "fst ` set (AList.update label (f pattern) res) \<inter> fst ` set rest = {}"
    using later disj by (simp add: AList.dom_update)
  from Cons.IH [OF dist this] keys show ?case by (simp add: rule)
qed

lemma categorized_sum_by_keys:
  "distinct (map fst d) \<Longrightarrow>
     sum_list [count e. (label, e) \<leftarrow> d, label \<noteq> ''Uncategorized'']
       = (\<Sum>l \<leftarrow> [l \<leftarrow> map fst d. l \<noteq> ''Uncategorized'']. count (the (map_of d l)))"
proof (induction d)
  case Nil
  show ?case by simp
next
  case (Cons kv d)
  obtain k v where kv: "kv = (k, v)" by (cases kv)
  let ?head = "if k \<noteq> ''Uncategorized'' then count v else 0"
  let ?keys = "[l \<leftarrow> map fst d. l \<noteq> ''Uncategorized'']"
  from Cons.prems kv have fresh: "k \<notin> fst ` set d" and dist: "distinct (map fst d)" by auto
  have tail: "map (\<lambda>l. count (the (map_of ((k, v) # d) l))) ?keys
                = map (\<lambda>l. count (the (map_of d l))) ?keys"
  proof (rule map_cong [OF refl])
    fix l
    assume "l \<in> set ?keys"
    then have "l \<in> fst ` set d" by auto
    with fresh have "l \<noteq> k" by auto
    then show "count (the (map_of ((k, v) # d) l)) = count (the (map_of d l))"
      by simp
  qed
  have "sum_list [count e. (label, e) \<leftarrow> (k, v) # d, label \<noteq> ''Uncategorized'']
          = ?head + sum_list [count e. (label, e) \<leftarrow> d, label \<noteq> ''Uncategorized'']"
    by simp
  also have "\<dots> = ?head + sum_list (map (\<lambda>l. count (the (map_of d l))) ?keys)"
    by (simp only: Cons.IH [OF dist])
  also have "\<dots> = ?head + sum_list (map (\<lambda>l. count (the (map_of ((k, v) # d) l))) ?keys)"
    by (simp only: tail)
  also have "\<dots> = (\<Sum>l \<leftarrow> [l \<leftarrow> map fst ((k, v) # d). l \<noteq> ''Uncategorized''].
                        count (the (map_of ((k, v) # d) l)))"
    by simp
  finally show ?case by (simp only: kv)
qed

lemma sum_over_rules:
  assumes "\<And>l p. (l, p) \<in> set patterns \<Longrightarrow> F l = G (l, p)"
  shows "(\<Sum>l \<leftarrow> map fst patterns. F l) = (\<Sum>r \<leftarrow> patterns. (G r :: int))"
proof -
  have "map F (map fst patterns) = map G patterns"
    unfolding map_map
  proof (rule map_cong [OF refl])
    fix r
    assume "r \<in> set patterns"
    with assms [of "fst r" "snd r"] show "(F \<circ> fst) r = G r" by simp
  qed
  then show ?thesis by (rule arg_cong)
qed

lemma no_sentinel_filter:
  "''Uncategorized'' \<notin> fst ` set patterns \<Longrightarrow>
     [l \<leftarrow> map fst patterns @ [''Uncategorized'']. l \<noteq> ''Uncategorized''] = map fst patterns"
  by (simp add: filter_id_conv) force

lemma multi_sum_value:
  assumes "enumerates set_to_list" and "distinct (map fst patterns)"
    and "''Uncategorized'' \<notin> fst ` set patterns"
  shows "\<exists>multi. multi_category_results set_to_list patterns df = Inr multi
           \<and> multi_sum multi = (\<Sum>r \<leftarrow> patterns. int (length (filter (snd r) df)))"
proof -
  let ?R = "foldl (\<lambda>r (label, pattern). AList.update label (entry_of (filter pattern df)) r)
              [] patterns"
  from multi_results [OF assms(1), of patterns df] obtain us where
    run: "multi_category_results set_to_list patterns df =
            Inr (AList.update ''Uncategorized'' (entry_of us) ?R)"
    by blast
  let ?M = "AList.update ''Uncategorized'' (entry_of us) ?R"
  have rkeys: "map fst ?R = map fst patterns"
    using foldl_entry_key_list [OF assms(2), of "[]" "\<lambda>p. entry_of (filter p df)"] by simp
  then have keys: "map fst ?M = map fst patterns @ [''Uncategorized'']"
    using assms(3) by (simp add: AList.update_keys)
  have dist: "distinct (map fst ?M)"
    unfolding keys using assms(2,3) by simp
  have look: "count (the (map_of ?M l)) = int (length (filter p df))"
    if "(l, p) \<in> set patterns" for l p
  proof -
    from that assms(3) have "l \<noteq> ''Uncategorized''" by (metis fst_conv image_eqI)
    with foldl_entry_lookup [OF assms(2) that, of "\<lambda>p. entry_of (filter p df)" "[]"]
    show ?thesis by (simp add: AList.update_conv' entry_of_def)
  qed
  have "multi_sum ?M = (\<Sum>l \<leftarrow> map fst patterns. count (the (map_of ?M l)))"
    unfolding multi_sum_def categorized_sum_by_keys [OF dist] keys
    by (simp only: no_sentinel_filter [OF assms(3)])
  also have "\<dots> = (\<Sum>r \<leftarrow> patterns. int (length (filter (snd r) df)))"
    by (rule sum_over_rules) (simp add: look)
  finally show ?thesis using run by blast
qed

lemma exclusive_init_key_list:
  assumes "distinct (map fst patterns)" and "''Uncategorized'' \<notin> fst ` set patterns"
  shows "map fst (exclusive_init patterns) = map fst patterns @ [''Uncategorized'']"
proof -
  have "foldl (\<lambda>d label. AList.update label empty_entry d) [] (map fst patterns)
          = foldl (\<lambda>r (label, pattern). AList.update label ((\<lambda>_. empty_entry) pattern) r)
              [] patterns"
    by (simp add: foldl_map case_prod_unfold)
  then have "map fst (foldl (\<lambda>d label. AList.update label empty_entry d) [] (map fst patterns))
               = map fst patterns"
    using foldl_entry_key_list [OF assms(1), of "[]" "\<lambda>_. empty_entry"] by simp
  with assms(2) show ?thesis
    by (simp add: exclusive_init_def AList.update_keys)
qed

lemma exclusive_sum_value:
  assumes "distinct (map fst patterns)" and "''Uncategorized'' \<notin> fst ` set patterns"
  shows "\<exists>exclusive. exclusive_category_results patterns df = Inr exclusive
           \<and> exclusive_sum_categorized exclusive =
               (\<Sum>r \<leftarrow> patterns.
                   int (length [h \<leftarrow> df. spec_assigned_category patterns h = fst r]))"
proof -
  from exclusive_entries [of patterns df] obtain x where
    run: "exclusive_category_results patterns df = Inr x" and
    xkeys: "map fst x = map fst (exclusive_init patterns)" and
    ents: "\<And>l. l \<in> insert ''Uncategorized'' (fst ` set patterns) \<Longrightarrow>
             map_of x l = Some (entry_of [h \<leftarrow> df. spec_assigned_category patterns h = l])"
    by blast
  have keys: "map fst x = map fst patterns @ [''Uncategorized'']"
    using xkeys exclusive_init_key_list [OF assms] by simp
  have dist: "distinct (map fst x)"
    unfolding keys using assms by simp
  have look: "count (the (map_of x l))
                = int (length [h \<leftarrow> df. spec_assigned_category patterns h = fst (l, p)])"
    if "(l, p) \<in> set patterns" for l p
  proof -
    from that have "l \<in> insert ''Uncategorized'' (fst ` set patterns)"
      by (metis fst_conv image_eqI insertI2)
    from ents [OF this] show ?thesis by (simp add: entry_of_def)
  qed
  have "exclusive_sum_categorized x = (\<Sum>l \<leftarrow> map fst patterns. count (the (map_of x l)))"
    unfolding exclusive_sum_categorized_def categorized_sum_by_keys [OF dist] keys
    by (simp only: no_sentinel_filter [OF assms(2)])
  also have "\<dots> = (\<Sum>r \<leftarrow> patterns.
                   int (length [h \<leftarrow> df. spec_assigned_category patterns h = fst r]))"
    by (rule sum_over_rules) (rule look)
  finally show ?thesis using run by blast
qed

lemma assigned_rule_matches:
  assumes "distinct (map fst patterns)" and "''Uncategorized'' \<notin> fst ` set patterns"
    and "(l, p) \<in> set patterns" and "spec_assigned_category patterns h = l"
  shows "p h"
proof (cases "find (\<lambda>(label, pattern). pattern h) patterns")
  case None
  with assms(4) have "l = ''Uncategorized''" by (simp add: spec_assigned_category_def)
  with assms(2,3) show ?thesis by (metis fst_conv image_eqI)
next
  case (Some rule)
  obtain l' p' where rule: "rule = (l', p')" by (cases rule)
  from Some have mem: "(l', p') \<in> set patterns" and hit: "p' h"
    unfolding rule
    by (metis find_Some_iff nth_mem, metis (mono_tags, lifting) find_Some_iff case_prod_conv)
  from Some assms(4) rule have "l' = l" by (simp add: spec_assigned_category_def)
  with mem assms(1,3) have "p' = p"
    by (metis map_of_is_SomeI option.inject)
  with hit show ?thesis by simp
qed

lemma filter_length_mono:
  "\<forall>x \<in> set xs. Q x \<longrightarrow> P x \<Longrightarrow> length (filter Q xs) \<le> length (filter P xs)"
  by (induction xs) auto

lemma filter_length_eq_imp:
  "\<forall>x \<in> set xs. Q x \<longrightarrow> P x \<Longrightarrow> length (filter Q xs) = length (filter P xs)
     \<Longrightarrow> \<forall>x \<in> set xs. P x \<longrightarrow> Q x"
proof (induction xs)
  case Nil
  show ?case by simp
next
  case (Cons x xs)
  from Cons.prems(1) have sub: "\<forall>x \<in> set xs. Q x \<longrightarrow> P x" and here: "Q x \<longrightarrow> P x"
    by simp_all
  have le: "length (filter Q xs) \<le> length (filter P xs)"
    using sub by (rule filter_length_mono)
  show ?case
  proof (cases "P x \<and> \<not> Q x")
    case True
    with Cons.prems(2) le show ?thesis by simp
  next
    case False
    with here Cons.prems(2) have "length (filter Q xs) = length (filter P xs)"
      by (cases "Q x") simp_all
    from Cons.IH [OF sub this] False show ?thesis by simp
  qed
qed

lemma sum_list_pointwise_eq:
  fixes f g :: "'a \<Rightarrow> int"
  assumes "\<forall>x \<in> set xs. g x \<le> f x" and "sum_list (map g xs) = sum_list (map f xs)"
  shows "\<forall>x \<in> set xs. g x = f x"
  using assms
proof (induction xs)
  case Nil
  show ?case by simp
next
  case (Cons x xs)
  from Cons.prems(1) have here: "g x \<le> f x" and rest: "\<forall>x \<in> set xs. g x \<le> f x"
    by simp_all
  from rest have "sum_list (map g xs) \<le> sum_list (map f xs)"
    by (simp add: sum_list_mono)
  with here Cons.prems(2) have "g x = f x" "sum_list (map g xs) = sum_list (map f xs)"
    by simp_all
  with Cons.IH [OF rest] show ?case by simp
qed

lemma distinct_all_equal:
  "distinct xs \<Longrightarrow> \<forall>x \<in> set xs. x = a \<Longrightarrow> length xs \<le> 1"
proof (cases xs)
  case Nil
  then show ?thesis by simp
next
  case (Cons x ys)
  assume d: "distinct xs" and e: "\<forall>x \<in> set xs. x = a"
  have "ys = []"
  proof (cases ys)
    case Nil
    then show ?thesis .
  next
    case (Cons y zs)
    with \<open>xs = x # ys\<close> d e show ?thesis by auto
  qed
  with Cons show ?thesis by simp
qed

lemma short_list_members:
  "length xs \<le> 1 \<Longrightarrow> x \<in> set xs \<Longrightarrow> y \<in> set xs \<Longrightarrow> x = y"
  by (cases xs) auto

lemma single_match_assigned:
  assumes "match_count patterns h \<le> 1" and "(l, p) \<in> set patterns" and "p h"
  shows "spec_assigned_category patterns h = l"
proof (cases "find (\<lambda>(label, pattern). pattern h) patterns")
  case None
  with assms(2,3) show ?thesis by (auto simp: find_None_iff)
next
  case (Some rule)
  obtain l' p' where rule: "rule = (l', p')" by (cases rule)
  from Some have mem: "(l', p') \<in> set patterns" and hit: "p' h"
    unfolding rule
    by (metis find_Some_iff nth_mem, metis (mono_tags, lifting) find_Some_iff case_prod_conv)
  from mem hit have a: "(l', p') \<in> set [rule \<leftarrow> patterns. snd rule h]" by simp
  from assms(2,3) have b: "(l, p) \<in> set [rule \<leftarrow> patterns. snd rule h]" by simp
  from assms(1) have "length [rule \<leftarrow> patterns. snd rule h] \<le> 1"
    by (simp add: match_count_def)
  from short_list_members [OF this a b] have "l' = l" by simp
  with Some rule show ?thesis by (simp add: spec_assigned_category_def)
qed

lemma all_assigned_single_match:
  assumes "distinct (map fst patterns)"
    and "\<forall>r \<in> set patterns. snd r h \<longrightarrow> spec_assigned_category patterns h = fst r"
  shows "match_count patterns h \<le> 1"
proof -
  let ?hits = "[rule \<leftarrow> patterns. snd rule h]"
  have "distinct (map fst ?hits)"
    using assms(1) by (rule distinct_map_filter)
  moreover have "\<forall>l \<in> set (map fst ?hits). l = spec_assigned_category patterns h"
    using assms(2) by auto
  ultimately have "length (map fst ?hits) \<le> 1"
    by (rule distinct_all_equal)
  then show ?thesis by (simp add: match_count_def)
qed

lemma sample_multi_sum:
  "on_ok (multi_category_results sorted_list_of_set sample_patterns sample_headlines)
     (\<lambda>multi. Inr (multi_sum multi)) = Inr 6"
  by (simp add: sample_multi_run multi_sum_def)

lemma sample_exclusive_sum_categorized:
  "on_ok (exclusive_category_results sample_patterns sample_headlines)
     (\<lambda>exclusive. Inr (exclusive_sum_categorized exclusive)) = Inr 4"
  by (simp add: sample_exclusive_run exclusive_sum_categorized_def)

lemma sample_match_count: "match_count sample_patterns ''Deaf son inspires mum'' = 2"
  by code_simp

text \<open>
  C6. For a rule set with one rule per label and no rule labelled \<open>Uncategorized\<close>,
  the sum of the multi-category counts without \<open>Uncategorized\<close> is at least the sum of
  the exclusive counts without \<open>Uncategorized\<close>, and the two sums are equal exactly when
  no headline is matched by more than one rule.
\<close>

theorem multi_total_vs_exclusive_total:
  assumes "enumerates set_to_list" and "distinct (map fst patterns)"
    and "''Uncategorized'' \<notin> fst ` set patterns"
  shows "\<exists>multi exclusive.
           multi_category_results set_to_list patterns df = Inr multi
         \<and> exclusive_category_results patterns df = Inr exclusive
         \<and> exclusive_sum_categorized exclusive \<le> multi_sum multi
         \<and> ((multi_sum multi = exclusive_sum_categorized exclusive)
              = (\<forall>h \<in> set df. match_count patterns h \<le> 1))"
proof -
  let ?f = "\<lambda>r. int (length (filter (snd r) df))"
  let ?g = "\<lambda>r. int (length [h \<leftarrow> df. spec_assigned_category patterns h = fst r])"
  from multi_sum_value [OF assms, of df] obtain multi where
    m: "multi_category_results set_to_list patterns df = Inr multi" and
    ms: "multi_sum multi = sum_list (map ?f patterns)"
    by (elim exE conjE)
  from exclusive_sum_value [OF assms(2,3), of df] obtain exclusive where
    x: "exclusive_category_results patterns df = Inr exclusive" and
    xs: "exclusive_sum_categorized exclusive = sum_list (map ?g patterns)"
    by (elim exE conjE)
  have imp: "\<forall>h \<in> set df. spec_assigned_category patterns h = fst r \<longrightarrow> snd r h"
    if "r \<in> set patterns" for r
    using assigned_rule_matches [OF assms(2,3), of "fst r" "snd r"] that by simp
  have le: "\<forall>r \<in> set patterns. ?g r \<le> ?f r"
    using imp by (simp add: filter_length_mono)
  then have total: "sum_list (map ?g patterns) \<le> sum_list (map ?f patterns)"
    by (simp add: sum_list_mono)
  have "(sum_list (map ?f patterns) = sum_list (map ?g patterns))
          = (\<forall>h \<in> set df. match_count patterns h \<le> 1)"
  proof
    assume "sum_list (map ?f patterns) = sum_list (map ?g patterns)"
    then have "sum_list (map ?g patterns) = sum_list (map ?f patterns)" by simp
    from sum_list_pointwise_eq [OF le this]
    have eq: "\<forall>r \<in> set patterns.
                length [h \<leftarrow> df. spec_assigned_category patterns h = fst r]
                  = length (filter (snd r) df)"
      by simp
    show "\<forall>h \<in> set df. match_count patterns h \<le> 1"
    proof
      fix h
      assume h: "h \<in> set df"
      have "\<forall>r \<in> set patterns. snd r h \<longrightarrow> spec_assigned_category patterns h = fst r"
      proof
        fix r
        assume r: "r \<in> set patterns"
        from eq r have "length [h \<leftarrow> df. spec_assigned_category patterns h = fst r]
                          = length (filter (snd r) df)"
          by blast
        from filter_length_eq_imp [OF imp [OF r] this] h
        show "snd r h \<longrightarrow> spec_assigned_category patterns h = fst r" by blast
      qed
      with assms(2) show "match_count patterns h \<le> 1"
        by (rule all_assigned_single_match)
    qed
  next
    assume single: "\<forall>h \<in> set df. match_count patterns h \<le> 1"
    have "map ?f patterns = map ?g patterns"
    proof (rule map_cong [OF refl])
      fix r
      assume r: "r \<in> set patterns"
      have "filter (snd r) df = [h \<leftarrow> df. spec_assigned_category patterns h = fst r]"
      proof (rule filter_cong [OF refl])
        fix h
        assume h: "h \<in> set df"
        show "snd r h = (spec_assigned_category patterns h = fst r)"
        proof
          assume "snd r h"
          with single h r single_match_assigned [of patterns h "fst r" "snd r"]
          show "spec_assigned_category patterns h = fst r" by simp
        next
          assume "spec_assigned_category patterns h = fst r"
          with imp [OF r] h show "snd r h" by blast
        qed
      qed
      then show "?f r = ?g r" by simp
    qed
    then show "sum_list (map ?f patterns) = sum_list (map ?g patterns)"
      by (rule arg_cong)
  qed
  with m x ms xs total show ?thesis
    by (intro exI [of _ multi] exI [of _ exclusive]) simp
qed

theorem multi_total_vs_exclusive_total_witness:
  "enumerates sorted_list_of_set
   \<and> distinct (map fst sample_patterns)
   \<and> ''Uncategorized'' \<notin> fst ` set sample_patterns
   \<and> (\<exists>multi exclusive.
           multi_category_results sorted_list_of_set sample_patterns sample_headlines = Inr multi
         \<and> exclusive_category_results sample_patterns sample_headlines = Inr exclusive
         \<and> exclusive_sum_categorized exclusive \<le> multi_sum multi
         \<and> ((multi_sum multi = exclusive_sum_categorized exclusive)
              = (\<forall>h \<in> set sample_headlines. match_count sample_patterns h \<le> 1)))
   \<and> on_ok (multi_category_results sorted_list_of_set sample_patterns sample_headlines)
        (\<lambda>multi. Inr (multi_sum multi)) = Inr 6
   \<and> on_ok (exclusive_category_results sample_patterns sample_headlines)
        (\<lambda>exclusive. Inr (exclusive_sum_categorized exclusive)) = Inr 4
   \<and> match_count sample_patterns ''Deaf son inspires mum'' = 2"
proof -
  have keys: "distinct (map fst sample_patterns)"
    using pattern_labels_distinct by (simp only: sample_patterns_keys)
  have sentinel: "''Uncategorized'' \<notin> fst ` set sample_patterns"
    using pattern_labels_sentinel sample_patterns_keys by (metis set_map)
  from multi_total_vs_exclusive_total [OF enumerates_sorted keys sentinel, of sample_headlines]
    enumerates_sorted keys sentinel sample_multi_sum sample_exclusive_sum_categorized
    sample_match_count
  show ?thesis by (intro conjI)
qed

section \<open>Two runs on the same input\<close>

lemma counts_of_update:
  "counts_of (AList.update k v d) = AList.update k (count v) (counts_of d)"
  by (induction d) (auto simp: counts_of_def)

lemma enumerates_sorted_rev: "enumerates (\<lambda>S. rev (sorted_list_of_set S))"
  by (simp add: enumerates_def)

lemma run_analysis_result:
  assumes "enumerates set_to_list"
  shows "\<exists>us exclusive matrix.
           run_analysis set_to_list patterns df =
             Inr \<lparr>multi_results =
                    AList.update ''Uncategorized'' (entry_of us)
                      (foldl (\<lambda>r (label, pattern).
                                AList.update label (entry_of (filter pattern df)) r)
                         [] patterns),
                  exclusive_results = exclusive, co_occurrence = matrix\<rparr>
         \<and> exclusive_category_results patterns df = Inr exclusive
         \<and> co_occurrence_matrix patterns df = Inr matrix
         \<and> mset us = mset [h \<leftarrow> df. match_count patterns h = 0]"
proof -
  from multi_results [OF assms, of patterns df] obtain us where
    m: "multi_category_results set_to_list patterns df =
          Inr (AList.update ''Uncategorized'' (entry_of us)
                 (foldl (\<lambda>r (label, pattern).
                           AList.update label (entry_of (filter pattern df)) r)
                    [] patterns))" and
    us: "mset us = mset [h \<leftarrow> df. match_count patterns h = 0]"
    by blast
  from exclusive_total_aux [of patterns df] obtain exclusive where
    x: "exclusive_category_results patterns df = Inr exclusive"
    by blast
  from co_occurrence_cells [of patterns df] obtain matrix where
    c: "co_occurrence_matrix patterns df = Inr matrix"
    by blast
  from m x c us show ?thesis
    by (intro exI [of _ us] exI [of _ exclusive] exI [of _ matrix])
       (simp add: run_analysis_def)
qed

lemma sample_unmatched_sorted:
  "on_ok (multi_category_results sorted_list_of_set sample_patterns sample_headlines_unmatched)
     (\<lambda>multi. dict_get multi ''Uncategorized'')
   = Inr \<lparr>count = 2, headlines = [''Weather update'', ''Traffic news'']\<rparr>"
  by code_simp

lemma sample_unmatched_reversed:
  "on_ok (multi_category_results (\<lambda>S. rev (sorted_list_of_set S)) sample_patterns
            sample_headlines_unmatched)
     (\<lambda>multi. dict_get multi ''Uncategorized'')
   = Inr \<lparr>count = 2, headlines = [''Traffic news'', ''Weather update'']\<rparr>"
  by code_simp

text \<open>
  C7. The one thing in a run that the script does not fix is the order in which
  \<^verbatim>\<open>list(unmatched_indices)\<close> walks a set. Two runs on the same headlines and the same
  ordered rule set, whatever order each of them walks the set in, both return, and
  they have the same multi-category counts, the same exclusive results (counts and
  lists of headlines) and the same co-occurrence matrix.
\<close>

theorem analysis_deterministic:
  assumes "enumerates order1" and "enumerates order2"
  shows "\<exists>run1 run2.
           run_analysis order1 patterns df = Inr run1
         \<and> run_analysis order2 patterns df = Inr run2
         \<and> counts_of (multi_results run1) = counts_of (multi_results run2)
         \<and> exclusive_results run1 = exclusive_results run2
         \<and> co_occurrence run1 = co_occurrence run2"
proof -
  let ?R = "foldl (\<lambda>r (label, pattern). AList.update label (entry_of (filter pattern df)) r)
              [] patterns"
  from run_analysis_result [OF assms(1), of patterns df] obtain us1 x1 c1 where
    r1: "run_analysis order1 patterns df =
           Inr \<lparr>multi_results = AList.update ''Uncategorized'' (entry_of us1) ?R,
                exclusive_results = x1, co_occurrence = c1\<rparr>" and
    x1: "exclusive_category_results patterns df = Inr x1" and
    c1: "co_occurrence_matrix patterns df = Inr c1" and
    us1: "mset us1 = mset [h \<leftarrow> df. match_count patterns h = 0]"
    by (elim exE conjE)
  from run_analysis_result [OF assms(2), of patterns df] obtain us2 x2 c2 where
    r2: "run_analysis order2 patterns df =
           Inr \<lparr>multi_results = AList.update ''Uncategorized'' (entry_of us2) ?R,
                exclusive_results = x2, co_occurrence = c2\<rparr>" and
    x2: "exclusive_category_results patterns df = Inr x2" and
    c2: "co_occurrence_matrix patterns df = Inr c2" and
    us2: "mset us2 = mset [h \<leftarrow> df. match_count patterns h = 0]"
    by (elim exE conjE)
  from us1 us2 have "size (mset us1) = size (mset us2)" by simp
  then have "length us1 = length us2" by (simp only: size_mset)
  then have counts: "counts_of (AList.update ''Uncategorized'' (entry_of us1) ?R)
                       = counts_of (AList.update ''Uncategorized'' (entry_of us2) ?R)"
    by (simp add: counts_of_update entry_of_def)
  from x1 x2 have xs: "x1 = x2" by simp
  from c1 c2 have cs: "c1 = c2" by simp
  from r1 r2 counts xs cs show ?thesis
    by (intro exI [of _ "\<lparr>multi_results = AList.update ''Uncategorized'' (entry_of us1) ?R,
                exclusive_results = x1, co_occurrence = c1\<rparr>"]
              exI [of _ "\<lparr>multi_results = AList.update ''Uncategorized'' (entry_of us2) ?R,
                exclusive_results = x2, co_occurrence = c2\<rparr>"]) simp
qed

theorem analysis_deterministic_witness:
  "enumerates sorted_list_of_set
   \<and> enumerates (\<lambda>S. rev (sorted_list_of_set S))
   \<and> (\<exists>run1 run2.
           run_analysis sorted_list_of_set sample_patterns sample_headlines_unmatched = Inr run1
         \<and> run_analysis (\<lambda>S. rev (sorted_list_of_set S)) sample_patterns
               sample_headlines_unmatched = Inr run2
         \<and> counts_of (multi_results run1) = counts_of (multi_results run2)
         \<and> exclusive_results run1 = exclusive_results run2
         \<and> co_occurrence run1 = co_occurrence run2)
   \<and> on_ok (multi_category_results sorted_list_of_set sample_patterns
               sample_headlines_unmatched)
        (\<lambda>multi. dict_get multi ''Uncategorized'')
      = Inr \<lparr>count = 2, headlines = [''Weather update'', ''Traffic news'']\<rparr>
   \<and> on_ok (multi_category_results (\<lambda>S. rev (sorted_list_of_set S)) sample_patterns
               sample_headlines_unmatched)
        (\<lambda>multi. dict_get multi ''Uncategorized'')
      = Inr \<lparr>count = 2, headlines = [''Traffic news'', ''Weather update'']\<rparr>"
  using analysis_deterministic [OF enumerates_sorted enumerates_sorted_rev,
      of sample_patterns sample_headlines_unmatched]
    enumerates_sorted enumerates_sorted_rev sample_unmatched_sorted sample_unmatched_reversed
  by (intro conjI)

end
